theory Spec2Isabelle
  imports Main "HOL-Library.AList" "HOL-Library.Sublist"
begin

section \<open>Host values, errors and objects\<close>

text \<open>
  The module is Python 3 (\<^verbatim>\<open>super().__init__()\<close>, \<^verbatim>\<open>yield from\<close>). Objects live in
  a store indexed by references; every method takes the store and returns the outcome
  (\<open>Inl\<close> the exception raised, \<open>Inr\<close> the value returned) together with the store as
  the call left it, because a Python exception does not undo the assignments made
  before it.

  Host values are the ones the tree code tells apart: \<^verbatim>\<open>None\<close>, text, lists, tuples,
  generators (with the items they would yield), dictionaries with text keys (in
  insertion order, as \<^verbatim>\<open>dict\<close> iterates), zero-argument functions (with the value
  they return) and references to tree objects.
\<close>

type_synonym ref = nat

datatype pyval =
    PNone
  | PStr string
  | PList "pyval list"
  | PTuple "pyval list"
  | PGen "pyval list"
  | PDict "(string \<times> pyval) list"
  | PFun pyval
  | PRef ref

datatype pyerr =
    TypeError | ValueError | KeyError | AttributeError | IndexError
  | TagError | StopIteration | RuntimeError | NotImplementedError
  | NotModelled | OutOfFuel

text \<open>
  \<open>NotModelled\<close> marks what lies outside the embedding (a dangling reference, the
  \<^verbatim>\<open>repr\<close> of a container or of an object); \<open>OutOfFuel\<close> is returned by the
  recursive renderer when its recursion bound is used up.
\<close>

datatype pyclass = DOMElement | Tag | VoidTag | Css | Content

text \<open>
  One record holds the instance attributes of all five classes; \<open>cls\<close> says which class
  the object is. \<open>p_name\<close>, \<open>p_stable\<close>, \<open>p_render\<close>, \<open>p_fixed_content\<close>,
  \<open>p_template\<close> are \<^verbatim>\<open>_name\<close>, \<^verbatim>\<open>_stable\<close>, \<^verbatim>\<open>_render\<close>, \<^verbatim>\<open>_fixed_content\<close>,
  \<^verbatim>\<open>_template\<close> (of a placeholder). \<open>tag_name\<close> is the class attribute \<^verbatim>\<open>__tag\<close> that
  the concrete tag classes of the catalogue define (absent on \<^verbatim>\<open>Tag\<close> itself),
  \<open>p_comment\<close> the \<^verbatim>\<open>_comment\<close> attribute of the attribute container, \<open>named\<close> the
  new attributes that \<^verbatim>\<open>_insert\<close> creates with \<^verbatim>\<open>setattr\<close> (a name that collides
  with an existing attribute is treated in \<open>p_insert\<close>).
\<close>

record node =
  cls :: pyclass
  p_name :: "string option"
  childs :: "pyval list"
  parent :: "ref option"
  content_data :: "(string \<times> pyval) list"
  named :: "(string \<times> pyval) list"
  attrs :: "(string \<times> pyval) list"
  p_comment :: "string option"
  tag_name :: "string option"
  p_stable :: bool
  p_render :: "string option"
  p_fixed_content :: pyval
  p_template :: "ref option"

type_synonym store = "ref \<Rightarrow> node option"

type_synonym 'a outcome = "(pyerr + 'a) \<times> store"

fun is_dom :: "pyclass \<Rightarrow> bool" where
  "is_dom Content = False"
| "is_dom _ = True"

fun is_tag :: "pyclass \<Rightarrow> bool" where
  "is_tag Tag = True"
| "is_tag VoidTag = True"
| "is_tag Css = True"
| "is_tag _ = False"

text \<open>
  Truth value of a host value. A \<^verbatim>\<open>DOMElement\<close> defines \<^verbatim>\<open>__len__\<close> and no
  \<^verbatim>\<open>__bool__\<close>, so it is true exactly when it has children; a placeholder defines
  neither and is always true.
\<close>

fun truthy :: "store \<Rightarrow> pyval \<Rightarrow> bool" where
  "truthy s PNone = False"
| "truthy s (PStr t) = (t \<noteq> [])"
| "truthy s (PList xs) = (xs \<noteq> [])"
| "truthy s (PTuple xs) = (xs \<noteq> [])"
| "truthy s (PGen xs) = True"
| "truthy s (PDict d) = (d \<noteq> [])"
| "truthy s (PFun v) = True"
| "truthy s (PRef r) =
     (case s r of None \<Rightarrow> True
      | Some n \<Rightarrow> (if is_dom (cls n) then childs n \<noteq> [] else True))"

text \<open>\<^verbatim>\<open>str(x)\<close> and \<^verbatim>\<open>'%s' % x\<close>, for the values whose text is determined here.\<close>

fun py_str :: "pyval \<Rightarrow> pyerr + string" where
  "py_str (PStr t) = Inr t"
| "py_str PNone = Inr ''None''"
| "py_str _ = Inl NotModelled"

fun join :: "string \<Rightarrow> string list \<Rightarrow> string" where
  "join sep [] = []"
| "join sep [x] = x"
| "join sep (x # y # ys) = x @ sep @ join sep (y # ys)"

text \<open>\<^verbatim>\<open>d[k] = v\<close> on a dictionary keeps the position of a key already present and
  puts a new key last: this is \<open>AList.update\<close>. \<^verbatim>\<open>d.update(e)\<close> does it for every
  pair of \<open>e\<close> in order.\<close>

definition dict_update :: "(string \<times> pyval) list \<Rightarrow> (string \<times> pyval) list \<Rightarrow> (string \<times> pyval) list" where
  "dict_update d e = fold (\<lambda>kv acc. AList.update (fst kv) (snd kv) acc) e d"

section \<open>TagAttrs\<close>

definition MAPPING_ATTRS :: "string list" where
  "MAPPING_ATTRS = [''style'']"

definition MULTI_VALUES_ATTRS :: "string list" where
  "MULTI_VALUES_ATTRS = [''klass'', ''typ'']"

definition SPECIALS :: "(string \<times> string) list" where
  "SPECIALS = [(''klass'', ''class''), (''typ'', ''type'')]"

text \<open>
  \<^verbatim>\<open>TagAttrs.__setitem__\<close>. The container creates the list or the mapping of a special
  key on the first write and then appends to it or merges into it; the creation
  stays when the merge raises.
\<close>

definition setitem :: "string \<Rightarrow> pyval \<Rightarrow> (string \<times> pyval) list \<Rightarrow> (pyerr + unit) \<times> (string \<times> pyval) list" where
  "setitem key val a =
     (if key \<in> set MULTI_VALUES_ATTRS then
        (let a1 = (if map_of a key = None then AList.update key (PList []) a else a) in
         case map_of a1 key of
           Some (PList xs) \<Rightarrow> (Inr (), AList.update key (PList (xs @ [val])) a1)
         | _ \<Rightarrow> (Inl AttributeError, a1))
      else if key \<in> set MAPPING_ATTRS then
        (let a1 = (if map_of a key = None then AList.update key (PDict []) a else a) in
         case map_of a1 key of
           Some (PDict d) \<Rightarrow>
             (case val of
                PDict e \<Rightarrow> (Inr (), AList.update key (PDict (dict_update d e)) a1)
              | PNone \<Rightarrow> (Inl TypeError, a1)
              | _ \<Rightarrow> (Inl NotModelled, a1))
         | _ \<Rightarrow> (Inl AttributeError, a1))
      else (Inr (), AList.update key val a))"

text \<open>\<^verbatim>\<open>TagAttrs.update\<close>: \<^verbatim>\<open>self[k] = v\<close> for every pair of \<^verbatim>\<open>attrs\<close>, then of
  \<^verbatim>\<open>kwargs\<close>.\<close>

fun update_items :: "(string \<times> pyval) list \<Rightarrow> (string \<times> pyval) list \<Rightarrow> (pyerr + unit) \<times> (string \<times> pyval) list" where
  "update_items [] a = (Inr (), a)"
| "update_items (kv # kvs) a =
     (case setitem (fst kv) (snd kv) a of
        (Inl e, a') \<Rightarrow> (Inl e, a')
      | (Inr _, a') \<Rightarrow> update_items kvs a')"

definition update :: "(string \<times> pyval) list option \<Rightarrow> (string \<times> pyval) list \<Rightarrow> (string \<times> pyval) list \<Rightarrow> (pyerr + unit) \<times> (string \<times> pyval) list" where
  "update as kwargs a =
     (case (case as of None \<Rightarrow> (Inr (), a) | Some kvs \<Rightarrow> update_items kvs a) of
        (Inl e, a') \<Rightarrow> (Inl e, a')
      | (Inr _, a') \<Rightarrow> update_items kwargs a')"

text \<open>The formatters of \<^verbatim>\<open>_FORMAT\<close>, followed by the \<^verbatim>\<open>%s\<close> of the attribute
  template; a key without formatter gets the identity.\<close>

fun style_items :: "(string \<times> pyval) list \<Rightarrow> pyerr + string list" where
  "style_items [] = Inr []"
| "style_items (kv # kvs) =
     (case py_str (snd kv) of
        Inl e \<Rightarrow> Inl e
      | Inr t \<Rightarrow>
          (case style_items kvs of
             Inl e \<Rightarrow> Inl e
           | Inr ts \<Rightarrow> Inr ((fst kv @ '': '' @ t @ '';'') # ts)))"

fun str_items :: "pyval list \<Rightarrow> pyerr + string list" where
  "str_items [] = Inr []"
| "str_items (PStr t # xs) =
     (case str_items xs of Inl e \<Rightarrow> Inl e | Inr ts \<Rightarrow> Inr (t # ts))"
| "str_items (_ # xs) = Inl TypeError"

definition format_value :: "string \<Rightarrow> pyval \<Rightarrow> pyerr + string" where
  "format_value key v =
     (if key = ''style'' then
        (case v of
           PDict d \<Rightarrow> (case style_items d of Inl e \<Rightarrow> Inl e | Inr ts \<Rightarrow> Inr (join '' '' ts))
         | _ \<Rightarrow> Inl AttributeError)
      else if key = ''klass'' \<or> key = ''typ'' then
        (case v of
           PList xs \<Rightarrow> (case str_items xs of Inl e \<Rightarrow> Inl e | Inr ts \<Rightarrow> Inr (join '' '' ts))
         | _ \<Rightarrow> Inl NotModelled)
      else py_str v)"

definition special :: "string \<Rightarrow> string" where
  "special key = (case map_of SPECIALS key of None \<Rightarrow> key | Some k \<Rightarrow> k)"

text \<open>\<^verbatim>\<open>TagAttrs.render\<close>: the comment passthrough, or one \<^verbatim>\<open> name="value"\<close> per
  item whose value is true.\<close>

fun render_items :: "store \<Rightarrow> (string \<times> pyval) list \<Rightarrow> pyerr + string" where
  "render_items s [] = Inr []"
| \<open>render_items s (kv # kvs) =
     (if truthy s (snd kv) then
        (case format_value (fst kv) (snd kv) of
           Inl e \<Rightarrow> Inl e
         | Inr t \<Rightarrow>
             (case render_items s kvs of
                Inl e \<Rightarrow> Inl e
              | Inr rest \<Rightarrow> Inr ('' '' @ special (fst kv) @ ''="'' @ t @ ''"'' @ rest)))
      else render_items s kvs)\<close>

definition attrs_render :: "store \<Rightarrow> node \<Rightarrow> pyerr + string" where
  "attrs_render s n =
     (case p_comment n of
        Some c \<Rightarrow> Inr c
      | None \<Rightarrow> render_items s (attrs n))"

section \<open>Tag: attribute mutators\<close>

text \<open>\<^verbatim>\<open>Tag.attr(attrs=None, **kwargs)\<close> passes \<^verbatim>\<open>attrs or kwargs\<close> to the
  container's \<^verbatim>\<open>update\<close>.\<close>

definition attr :: "ref \<Rightarrow> (string \<times> pyval) list option \<Rightarrow> (string \<times> pyval) list \<Rightarrow> store \<Rightarrow> ref outcome" where
  "attr r as kwargs s =
     (case s r of
        None \<Rightarrow> (Inl NotModelled, s)
      | Some n \<Rightarrow>
          (if is_tag (cls n) then
             (let arg = (case as of None \<Rightarrow> kwargs | Some kvs \<Rightarrow> (if kvs = [] then kwargs else kvs)) in
              case update (Some arg) [] (attrs n) of
                (Inl e, a') \<Rightarrow> (Inl e, s(r \<mapsto> n\<lparr>p_stable := False, attrs := a'\<rparr>))
              | (Inr _, a') \<Rightarrow> (Inr r, s(r \<mapsto> n\<lparr>p_stable := False, attrs := a'\<rparr>)))
           else (Inl AttributeError, s)))"

definition remove_attr :: "ref \<Rightarrow> string \<Rightarrow> store \<Rightarrow> ref outcome" where
  "remove_attr r key s =
     (case s r of
        None \<Rightarrow> (Inl NotModelled, s)
      | Some n \<Rightarrow>
          (if is_tag (cls n) then
             (Inr r, s(r \<mapsto> n\<lparr>p_stable := False, attrs := AList.delete key (attrs n)\<rparr>))
           else (Inl AttributeError, s)))"

text \<open>\<^verbatim>\<open>add_class\<close> reads \<^verbatim>\<open>self.attrs['klass']\<close> with the plain \<^verbatim>\<open>dict\<close> lookup
  (the container overrides neither \<^verbatim>\<open>__getitem__\<close> nor \<^verbatim>\<open>__missing__\<close>) and
  appends to the list it finds.\<close>

definition add_class :: "ref \<Rightarrow> pyval \<Rightarrow> store \<Rightarrow> ref outcome" where
  "add_class r c s =
     (case s r of
        None \<Rightarrow> (Inl NotModelled, s)
      | Some n \<Rightarrow>
          (if is_tag (cls n) then
             (let n1 = n\<lparr>p_stable := False\<rparr> in
              case map_of (attrs n1) ''klass'' of
                None \<Rightarrow> (Inl KeyError, s(r \<mapsto> n1))
              | Some (PList xs) \<Rightarrow>
                  (Inr r, s(r \<mapsto> n1\<lparr>attrs := AList.update ''klass'' (PList (xs @ [c])) (attrs n1)\<rparr>))
              | Some _ \<Rightarrow> (Inl AttributeError, s(r \<mapsto> n1)))
           else (Inl AttributeError, s)))"

text \<open>\<^verbatim>\<open>css(*props, **kwprops)\<close>: one mapping, or keyword properties; two positional
  arguments reach \<^verbatim>\<open>dict(*props)\<close>, which takes at most one.\<close>

definition css :: "ref \<Rightarrow> pyval list \<Rightarrow> (string \<times> pyval) list \<Rightarrow> store \<Rightarrow> ref outcome" where
  "css r props kwprops s =
     (case s r of
        None \<Rightarrow> (Inl NotModelled, s)
      | Some n \<Rightarrow>
          (if is_tag (cls n) then
             (let s1 = s(r \<mapsto> n\<lparr>p_stable := False\<rparr>) in
              if props \<noteq> [] then
                (case props of
                   [PDict d] \<Rightarrow> attr r (Some [(''style'', PDict d)]) [] s1
                 | [_, _] \<Rightarrow> (Inl TypeError, s1)
                 | _ \<Rightarrow> (Inl TagError, s1))
              else if kwprops \<noteq> [] then attr r (Some [(''style'', PDict kwprops)]) [] s1
              else (Inl TagError, s1))
           else (Inl AttributeError, s)))"

text \<open>\<^verbatim>\<open>hide\<close>, \<^verbatim>\<open>show\<close> and \<^verbatim>\<open>toggle\<close> index \<^verbatim>\<open>self.attrs['style']\<close> and then
  its \<^verbatim>\<open>'display'\<close> entry.\<close>

definition hide :: "ref \<Rightarrow> store \<Rightarrow> ref outcome" where
  "hide r s =
     (case s r of
        None \<Rightarrow> (Inl NotModelled, s)
      | Some n \<Rightarrow>
          (if is_tag (cls n) then
             (let n1 = n\<lparr>p_stable := False\<rparr> in
              case map_of (attrs n1) ''style'' of
                None \<Rightarrow> (Inl KeyError, s(r \<mapsto> n1))
              | Some (PDict d) \<Rightarrow>
                  (Inr r, s(r \<mapsto> n1\<lparr>attrs := AList.update ''style'' (PDict (AList.update ''display'' PNone d)) (attrs n1)\<rparr>))
              | Some _ \<Rightarrow> (Inl TypeError, s(r \<mapsto> n1)))
           else (Inl AttributeError, s)))"

definition show_tag :: "ref \<Rightarrow> store \<Rightarrow> ref outcome" where
  "show_tag r s =
     (case s r of
        None \<Rightarrow> (Inl NotModelled, s)
      | Some n \<Rightarrow>
          (if is_tag (cls n) then
             (let n1 = n\<lparr>p_stable := False\<rparr> in
              case map_of (attrs n1) ''style'' of
                None \<Rightarrow> (Inl KeyError, s(r \<mapsto> n1))
              | Some (PDict d) \<Rightarrow>
                  (if map_of d ''display'' = None then (Inl KeyError, s(r \<mapsto> n1))
                   else (Inr r, s(r \<mapsto> n1\<lparr>attrs := AList.update ''style'' (PDict (AList.delete ''display'' d)) (attrs n1)\<rparr>)))
              | Some _ \<Rightarrow> (Inl AttributeError, s(r \<mapsto> n1)))
           else (Inl AttributeError, s)))"

definition toggle :: "ref \<Rightarrow> store \<Rightarrow> ref outcome" where
  "toggle r s =
     (case s r of
        None \<Rightarrow> (Inl NotModelled, s)
      | Some n \<Rightarrow>
          (if is_tag (cls n) then
             (let n1 = n\<lparr>p_stable := False\<rparr>; s1 = s(r \<mapsto> n1) in
              case map_of (attrs n1) ''style'' of
                None \<Rightarrow> (Inl KeyError, s1)
              | Some (PDict d) \<Rightarrow>
                  (case map_of d ''display'' of
                     None \<Rightarrow> (Inl KeyError, s1)
                   | Some PNone \<Rightarrow> show_tag r s1
                   | Some _ \<Rightarrow> hide r s1)
              | Some _ \<Rightarrow> (Inl TypeError, s1))
           else (Inl AttributeError, s)))"

section \<open>DOMElement: linkage and mutation\<close>

definition blank :: "pyclass \<Rightarrow> node" where
  "blank c = \<lparr>cls = c, p_name = None, childs = [], parent = None, content_data = [],
     named = [], attrs = [], p_comment = None, tag_name = None, p_stable = False,
     p_render = None, p_fixed_content = PNone, p_template = None\<rparr>"

text \<open>
  \<^verbatim>\<open>list.index(self)\<close> compares the elements with \<^verbatim>\<open>self\<close> from the left. Tree
  objects compare by \<^verbatim>\<open>uuid\<close>, which is the reference here. An element that is no
  tree object has no \<^verbatim>\<open>uuid\<close>: its own \<^verbatim>\<open>__eq__\<close> declines and the reflected
  \<^verbatim>\<open>DOMElement.__eq__\<close> raises AttributeError on \<^verbatim>\<open>other.uuid\<close>.
\<close>

fun list_index :: "store \<Rightarrow> ref \<Rightarrow> pyval list \<Rightarrow> pyerr + nat" where
  "list_index s r [] = Inl ValueError"
| "list_index s r (PRef q # xs) =
     (if q = r then Inr 0
      else (case s q of
              None \<Rightarrow> Inl NotModelled
            | Some _ \<Rightarrow> (case list_index s r xs of Inl e \<Rightarrow> Inl e | Inr k \<Rightarrow> Inr (Suc k))))"
| "list_index s r (_ # xs) = Inl AttributeError"

text \<open>\<^verbatim>\<open>_own_index\<close>: the index in the parent's children when \<^verbatim>\<open>self.parent\<close> is
  true, else \<^verbatim>\<open>None\<close>. (A placeholder as parent is true and has no \<^verbatim>\<open>childs\<close>.)\<close>

definition own_index :: "ref \<Rightarrow> store \<Rightarrow> pyerr + nat option" where
  "own_index r s =
     (case s r of
        None \<Rightarrow> Inl NotModelled
      | Some n \<Rightarrow>
          (case parent n of
             None \<Rightarrow> Inr None
           | Some p \<Rightarrow>
               (if truthy s (PRef p) then
                  (case s p of
                     None \<Rightarrow> Inl NotModelled
                   | Some pn \<Rightarrow>
                       (if is_dom (cls pn) then
                          (case list_index s r (childs pn) of
                             Inl e \<Rightarrow> Inl e
                           | Inr k \<Rightarrow> Inr (Some k))
                        else Inl AttributeError))
                else Inr None)))"

text \<open>
  \<^verbatim>\<open>_insert\<close> ends with \<^verbatim>\<open>setattr(self, child._name, child)\<close> for a child with a
  true name. A name that is also the name of an attribute of the receiver overwrites
  that attribute. \<open>attribute_names\<close> lists the public names that \<^verbatim>\<open>DOMElement\<close> and
  \<^verbatim>\<open>Tag\<close> define, on the instance or in the class; \<open>shadows\<close> holds for them and for
  every name that begins with an underscore (the private and the special attributes).
\<close>

definition attribute_names :: "string list" where
  "attribute_names =
     [''childs'', ''parent'', ''content_data'', ''uuid'', ''content_receiver'', ''inject'',
      ''clone'', ''after'', ''before'', ''prepend'', ''prepend_to'', ''append'', ''append_to'',
      ''wrap'', ''wrap_inner'', ''replace_with'', ''remove'', ''move'', ''pop'', ''empty'',
      ''childrens'', ''contents'', ''first'', ''last'', ''next'', ''next_all'', ''prev'',
      ''prev_all'', ''siblings'', ''slice'', ''render'', ''attrs'', ''data'', ''length'',
      ''index'', ''stable'', ''attr'', ''remove_attr'', ''add_class'', ''remove_class'',
      ''css'', ''hide'', ''show'', ''toggle'', ''has_class'', ''toggle_class'', ''html'',
      ''text'']"

definition shadows :: "string \<Rightarrow> bool" where
  "shadows nm = (case nm of [] \<Rightarrow> False | c # _ \<Rightarrow> c = CHR ''_'' \<or> nm \<in> set attribute_names)"

text \<open>
  \<^verbatim>\<open>_insert(child, idx=None, prepend=False)\<close>, a method of \<^verbatim>\<open>DOMElement\<close> (a
  placeholder has none). \<^verbatim>\<open>list.insert\<close> past the end appends, as \<open>take\<close> and
  \<open>drop\<close> do. The child's old parent is not touched. For a child named
  \<^verbatim>\<open>parent\<close> the final \<^verbatim>\<open>setattr\<close> makes the child the receiver's parent
  reference; the other shadowing names put a tree object where the embedding has a
  list, a flag or a method, and end as \<open>NotModelled\<close>; any other name becomes a new
  attribute, kept in \<open>named\<close>.
\<close>

definition p_insert :: "ref \<Rightarrow> pyval \<Rightarrow> int option \<Rightarrow> bool \<Rightarrow> store \<Rightarrow> unit outcome" where
  "p_insert self child idx prepend s =
     (case s self of
        None \<Rightarrow> (Inl NotModelled, s)
      | Some n \<Rightarrow>
          (if is_dom (cls n) then
             (let idx1 = (case idx of None \<Rightarrow> None | Some i \<Rightarrow> (if i \<noteq> 0 \<and> i < 0 then Some 0 else Some i));
                  pos = (if prepend then 0
                         else (case idx1 of None \<Rightarrow> length (childs n) | Some i \<Rightarrow> nat i));
                  s1 = s(self \<mapsto> n\<lparr>childs := take pos (childs n) @ [child] @ drop pos (childs n)\<rparr>)
              in case child of
                   PRef c \<Rightarrow>
                     (case s1 c of
                        None \<Rightarrow> (Inl NotModelled, s1)
                      | Some cn \<Rightarrow>
                          (let s2 = s1(c \<mapsto> cn\<lparr>parent := Some self\<rparr>) in
                           case p_name cn of
                             None \<Rightarrow> (Inr (), s2)
                           | Some nm \<Rightarrow>
                               (if nm = [] then (Inr (), s2)
                                else (case s2 self of
                                        None \<Rightarrow> (Inl NotModelled, s2)
                                      | Some n2 \<Rightarrow>
                                          (if nm = ''parent'' then
                                             (Inr (), s2(self \<mapsto> n2\<lparr>parent := Some c\<rparr>))
                                           else if shadows nm then (Inl NotModelled, s2)
                                           else (Inr (), s2(self \<mapsto> n2\<lparr>named := AList.update nm child (named n2)\<rparr>)))))))
                 | _ \<Rightarrow> (Inr (), s1))
           else (Inl AttributeError, s)))"

subsection \<open>Argument flattening\<close>

text \<open>
  \<^verbatim>\<open>verse = (1, 0)[reverse]\<close> is the step of the slices \<^verbatim>\<open>items[::verse]\<close> and
  \<^verbatim>\<open>list(kwitems.items())[::verse]\<close>; a slice with step 0 raises ValueError, whatever
  the sequence.
\<close>

definition verse :: "bool \<Rightarrow> int" where
  "verse reverse = [1, 0] ! (if reverse then 1 else 0)"

definition slice_step :: "'a list \<Rightarrow> int \<Rightarrow> pyerr + 'a list" where
  "slice_step xs k =
     (if k = 0 then Inl ValueError
      else if k = 1 then Inr xs
      else if k = - 1 then Inr (rev xs)
      else Inl NotModelled)"

text \<open>
  \<^verbatim>\<open>_yield_items\<close> is a generator: what it produces is the list of the pairs it
  yields and the exception that ends it, if one does. The consumer handles each pair
  before the generator runs on, so the pairs yielded before an exception are handled
  before it is raised.

  \<open>yield_unnamed i xs\<close> is the loop over the positional items from index \<open>i\<close> on. An
  unnamed list or tuple is flattened by the recursive call
  \<^verbatim>\<open>self._yield_items(item.obj, {})\<close>, whose indices start again at 0; for an unnamed
  generator that call evaluates \<^verbatim>\<open>items[::verse]\<close> on the generator, which is not
  subscriptable. (The name that \<^verbatim>\<open>_ChildElement\<close> copies from an unnamed tree object
  is read only for sequences, so it plays no role.)
\<close>

type_synonym yielded = "(nat \<times> pyval) list \<times> pyerr option"

definition yseq :: "yielded \<Rightarrow> yielded \<Rightarrow> yielded" where
  "yseq a b = (case snd a of None \<Rightarrow> (fst a @ fst b, snd b) | Some e \<Rightarrow> a)"

fun yield_unnamed :: "nat \<Rightarrow> pyval list \<Rightarrow> yielded" where
  "yield_unnamed i [] = ([], None)"
| "yield_unnamed i (x # xs) =
     yseq (case x of
             PList ys \<Rightarrow> yield_unnamed 0 ys
           | PTuple ys \<Rightarrow> yield_unnamed 0 ys
           | PGen ys \<Rightarrow> ([], Some TypeError)
           | _ \<Rightarrow> ([(i, x)], None))
          (yield_unnamed (Suc i) xs)"

fun yield_named :: "nat \<Rightarrow> (string \<times> pyval) list \<Rightarrow> yielded" where
  "yield_named i [] = ([], None)"
| "yield_named i (kv # kvs) =
     yseq (case snd kv of
             PList ys \<Rightarrow> (if fst kv \<noteq> [] then ([(i, snd kv)], None) else yield_unnamed 0 ys)
           | PTuple ys \<Rightarrow> (if fst kv \<noteq> [] then ([(i, snd kv)], None) else yield_unnamed 0 ys)
           | PGen ys \<Rightarrow> (if fst kv \<noteq> [] then ([(i, snd kv)], None) else ([], Some TypeError))
           | _ \<Rightarrow> ([(i, snd kv)], None))
          (yield_named (Suc i) kvs)"

definition yield_items :: "pyval list \<Rightarrow> (string \<times> pyval) list \<Rightarrow> bool \<Rightarrow> yielded" where
  "yield_items items kwitems reverse =
     (case slice_step items (verse reverse) of
        Inl e \<Rightarrow> ([], Some e)
      | Inr us \<Rightarrow>
          (case slice_step kwitems (verse reverse) of
             Inl e \<Rightarrow> ([], Some e)
           | Inr ns \<Rightarrow>
               (if verse reverse = 1 then yseq (yield_unnamed 0 us) (yield_named (length us) ns)
                else ([], Some NotModelled))))"

subsection \<open>The content receiver and the methods it decorates\<close>

text \<open>
  The decorator calls the decorated function as \<^verbatim>\<open>func(inst, i, tag)\<close>, with three
  arguments. \<^verbatim>\<open>__call__\<close>, \<^verbatim>\<open>after\<close> and \<^verbatim>\<open>before\<close> are written with three
  parameters, \<^verbatim>\<open>prepend(self, child)\<close> and \<^verbatim>\<open>append(self, child)\<close> with two, so for
  these the call raises TypeError before the body runs. The wrapper itself is
  \<^verbatim>\<open>wrapped(inst, *tags, **kwtags)\<close>: a keyword named \<^verbatim>\<open>inst\<close> collides with its first
  parameter. A placeholder has none of the decorated methods, and calling it is a
  TypeError, since it defines no \<^verbatim>\<open>__call__\<close>.
\<close>

datatype body =
    Ternary "ref \<Rightarrow> nat \<Rightarrow> pyval \<Rightarrow> store \<Rightarrow> unit outcome"
  | Binary "ref \<Rightarrow> pyval \<Rightarrow> store \<Rightarrow> unit outcome"

fun call3 :: "body \<Rightarrow> ref \<Rightarrow> nat \<Rightarrow> pyval \<Rightarrow> store \<Rightarrow> unit outcome" where
  "call3 (Ternary f) inst i tag s = f inst i tag s"
| "call3 (Binary f) inst i tag s = (Inl TypeError, s)"

fun receive :: "body \<Rightarrow> ref \<Rightarrow> (nat \<times> pyval) list \<Rightarrow> pyerr option \<Rightarrow> store \<Rightarrow> ref outcome" where
  "receive func inst [] err s = (case err of None \<Rightarrow> (Inr inst, s) | Some e \<Rightarrow> (Inl e, s))"
| "receive func inst (it # rest) err s =
     (case s inst of
        None \<Rightarrow> (Inl NotModelled, s)
      | Some n \<Rightarrow>
          (case call3 func inst (fst it) (snd it) (s(inst \<mapsto> n\<lparr>p_stable := False\<rparr>)) of
             (Inl e, s') \<Rightarrow> (Inl e, s')
           | (Inr _, s') \<Rightarrow> receive func inst rest err s'))"

definition content_receiver :: "bool \<Rightarrow> body \<Rightarrow> ref \<Rightarrow> pyval list \<Rightarrow> (string \<times> pyval) list \<Rightarrow> store \<Rightarrow> ref outcome" where
  "content_receiver reverse func inst tags kwtags s =
     (case s inst of
        None \<Rightarrow> (Inl NotModelled, s)
      | Some n \<Rightarrow>
          (if is_dom (cls n) then
             (if ''inst'' \<in> set (map fst kwtags) then (Inl TypeError, s)
              else (let y = yield_items tags kwtags reverse in receive func inst (fst y) (snd y) s))
           else (Inl AttributeError, s)))"

definition call_body :: "ref \<Rightarrow> nat \<Rightarrow> pyval \<Rightarrow> store \<Rightarrow> unit outcome" where
  "call_body self i child s = p_insert self child None False s"

definition after_body :: "ref \<Rightarrow> nat \<Rightarrow> pyval \<Rightarrow> store \<Rightarrow> unit outcome" where
  "after_body self i child s =
     (case s self of
        None \<Rightarrow> (Inl NotModelled, s)
      | Some n \<Rightarrow>
          (case parent n of
             None \<Rightarrow> (Inl AttributeError, s)
           | Some p \<Rightarrow>
               (case own_index self s of
                  Inl e \<Rightarrow> (Inl e, s)
                | Inr None \<Rightarrow> (Inl TypeError, s)
                | Inr (Some k) \<Rightarrow> p_insert p child (Some (int k + 1 + int i)) False s)))"

definition before_body :: "ref \<Rightarrow> nat \<Rightarrow> pyval \<Rightarrow> store \<Rightarrow> unit outcome" where
  "before_body self i child s =
     (case s self of
        None \<Rightarrow> (Inl NotModelled, s)
      | Some n \<Rightarrow>
          (case parent n of
             None \<Rightarrow> (Inl AttributeError, s)
           | Some p \<Rightarrow>
               (case own_index self s of
                  Inl e \<Rightarrow> (Inl e, s)
                | Inr None \<Rightarrow> (Inl TypeError, s)
                | Inr (Some k) \<Rightarrow> p_insert p child (Some (int k - int i)) False s)))"

definition prepend_body :: "ref \<Rightarrow> pyval \<Rightarrow> store \<Rightarrow> unit outcome" where
  "prepend_body self child s = p_insert self child None True s"

definition append_body :: "ref \<Rightarrow> pyval \<Rightarrow> store \<Rightarrow> unit outcome" where
  "append_body self child s = p_insert self child None False s"

definition call :: "ref \<Rightarrow> pyval list \<Rightarrow> (string \<times> pyval) list \<Rightarrow> store \<Rightarrow> ref outcome" where
  "call r tags kwtags s =
     (case s r of
        None \<Rightarrow> (Inl NotModelled, s)
      | Some n \<Rightarrow>
          (if is_dom (cls n) then content_receiver False (Ternary call_body) r tags kwtags s
           else (Inl TypeError, s)))"

definition after :: "ref \<Rightarrow> pyval list \<Rightarrow> (string \<times> pyval) list \<Rightarrow> store \<Rightarrow> ref outcome" where
  "after = content_receiver False (Ternary after_body)"

definition before :: "ref \<Rightarrow> pyval list \<Rightarrow> (string \<times> pyval) list \<Rightarrow> store \<Rightarrow> ref outcome" where
  "before = content_receiver True (Ternary before_body)"

definition prepend :: "ref \<Rightarrow> pyval list \<Rightarrow> (string \<times> pyval) list \<Rightarrow> store \<Rightarrow> ref outcome" where
  "prepend = content_receiver True (Binary prepend_body)"

definition append :: "ref \<Rightarrow> pyval list \<Rightarrow> (string \<times> pyval) list \<Rightarrow> store \<Rightarrow> ref outcome" where
  "append = content_receiver False (Binary append_body)"

subsection \<open>Removal and the other structural methods\<close>

text \<open>
  \<^verbatim>\<open>pop(idx=None)\<close>: \<^verbatim>\<open>if not idx\<close> replaces \<^verbatim>\<open>None\<close> and also 0 by the last
  position; \<^verbatim>\<open>list.pop\<close> accepts a negative index and raises IndexError out of
  range. The parent reference is cleared for a \<^verbatim>\<open>DOMElement\<close> only.
\<close>

definition pop :: "ref \<Rightarrow> int option \<Rightarrow> store \<Rightarrow> pyval outcome" where
  "pop r idx s =
     (case s r of
        None \<Rightarrow> (Inl NotModelled, s)
      | Some n \<Rightarrow>
          (if is_dom (cls n) then
             (let n1 = n\<lparr>p_stable := False\<rparr>;
                  len = int (length (childs n));
                  i = (case idx of None \<Rightarrow> len - 1 | Some k \<Rightarrow> (if k = 0 then len - 1 else k));
                  j = (if i < 0 then i + len else i)
              in if 0 \<le> j \<and> j < len then
                   (let elem = childs n ! nat j;
                        s2 = s(r \<mapsto> n1\<lparr>childs := take (nat j) (childs n) @ drop (Suc (nat j)) (childs n)\<rparr>)
                    in case elem of
                         PRef e \<Rightarrow>
                           (case s2 e of
                              None \<Rightarrow> (Inl NotModelled, s2)
                            | Some en \<Rightarrow>
                                (if is_dom (cls en) then (Inr elem, s2(e \<mapsto> en\<lparr>parent := None\<rparr>))
                                 else (Inr elem, s2)))
                       | _ \<Rightarrow> (Inr elem, s2))
                 else (Inl IndexError, s(r \<mapsto> n1)))
           else (Inl AttributeError, s)))"

text \<open>A call \<^verbatim>\<open>pop(kw=v)\<close> with one keyword argument: the only parameter is named
  \<^verbatim>\<open>idx\<close>, any other keyword is a TypeError raised before the body runs.\<close>

definition pop_kw :: "ref \<Rightarrow> string \<Rightarrow> int option \<Rightarrow> store \<Rightarrow> pyval outcome" where
  "pop_kw r kw v s = (if kw = ''idx'' then pop r v s else (Inl TypeError, s))"

text \<open>
  \<^verbatim>\<open>remove\<close>: the guard \<^verbatim>\<open>self._own_index and self.parent\<close> is false for the index
  \<^verbatim>\<open>None\<close> and for the index 0; otherwise the method calls
  \<^verbatim>\<open>self.parent.pop(i=self._own_index)\<close>.
\<close>

definition remove :: "ref \<Rightarrow> store \<Rightarrow> ref outcome" where
  "remove r s =
     (case s r of
        None \<Rightarrow> (Inl NotModelled, s)
      | Some n \<Rightarrow>
          (if is_dom (cls n) then
             (case own_index r s of
                Inl e \<Rightarrow> (Inl e, s)
              | Inr None \<Rightarrow> (Inr r, s)
              | Inr (Some k) \<Rightarrow>
                  (if k \<noteq> 0 then
                     (case parent n of
                        None \<Rightarrow> (Inr r, s)
                      | Some p \<Rightarrow>
                          (if truthy s (PRef p) then
                             (case pop_kw p ''i'' (Some (int k)) s of
                                (Inl e, s') \<Rightarrow> (Inl e, s')
                              | (Inr _, s') \<Rightarrow> (Inr r, s'))
                           else (Inr r, s)))
                   else (Inr r, s)))
           else (Inl AttributeError, s)))"

text \<open>
  \<^verbatim>\<open>move(new_father, idx=None, prepend=None)\<close> begins with the same keyword call of
  \<^verbatim>\<open>pop\<close> and then calls \<^verbatim>\<open>_insert\<close> with four arguments besides the receiver,
  one more than it takes.
\<close>

definition move :: "ref \<Rightarrow> ref \<Rightarrow> int option \<Rightarrow> bool \<Rightarrow> store \<Rightarrow> ref outcome" where
  "move r new_father idx prep s =
     (case s r of
        None \<Rightarrow> (Inl NotModelled, s)
      | Some n \<Rightarrow>
          (if is_dom (cls n) then
             (case parent n of
                None \<Rightarrow> (Inl AttributeError, s)
              | Some p \<Rightarrow>
                  (case own_index r s of
                     Inl e \<Rightarrow> (Inl e, s)
                   | Inr k \<Rightarrow>
                       (case pop_kw p ''i'' (map_option int k) s of
                          (Inl e, s') \<Rightarrow> (Inl e, s')
                        | (Inr _, s') \<Rightarrow> (Inl TypeError, s'))))
           else (Inl AttributeError, s)))"

text \<open>\<^verbatim>\<open>wrap(other)\<close>: TagError when \<^verbatim>\<open>other\<close> has children (a placeholder
  has no attribute \<^verbatim>\<open>childs\<close>); then, with a true
  parent, \<^verbatim>\<open>self.before(other)\<close> and \<^verbatim>\<open>self.parent.pop(self._own_index)\<close>; at last
  \<^verbatim>\<open>other.append(self)\<close>.\<close>

definition wrap :: "ref \<Rightarrow> ref \<Rightarrow> store \<Rightarrow> ref outcome" where
  "wrap r other s =
     (case s r of
        None \<Rightarrow> (Inl NotModelled, s)
      | Some n \<Rightarrow>
          (case s other of
             None \<Rightarrow> (Inl NotModelled, s)
           | Some on \<Rightarrow>
               (if is_dom (cls n) then
                  (if \<not> is_dom (cls on) then (Inl AttributeError, s)
                   else if childs on \<noteq> [] then (Inl TagError, s)
                   else
                     (case (case parent n of
                              None \<Rightarrow> (Inr (), s)
                            | Some p \<Rightarrow>
                                (if truthy s (PRef p) then
                                   (case before r [PRef other] [] s of
                                      (Inl e, s1) \<Rightarrow> (Inl e, s1)
                                    | (Inr _, s1) \<Rightarrow>
                                        (case own_index r s1 of
                                           Inl e \<Rightarrow> (Inl e, s1)
                                         | Inr k \<Rightarrow>
                                             (case pop p (map_option int k) s1 of
                                                (Inl e, s2) \<Rightarrow> (Inl e, s2)
                                              | (Inr _, s2) \<Rightarrow> (Inr (), s2))))
                                 else (Inr (), s))) of
                        (Inl e, s') \<Rightarrow> (Inl e, s')
                      | (Inr _, s') \<Rightarrow> append other [PRef r] [] s'))
                else (Inl AttributeError, s))))"

text \<open>
  \<^verbatim>\<open>replace_with(other)\<close>: for a \<^verbatim>\<open>DOMElement\<close> only the local name \<^verbatim>\<open>self\<close> is
  rebound; for an iterable, \<^verbatim>\<open>list(other)\<close> takes the slot of \<^verbatim>\<open>self\<close> in the
  parent's children, and no parent reference is written. Text iterates over its
  characters, a dictionary over its keys.
\<close>

fun as_list :: "store \<Rightarrow> pyval \<Rightarrow> pyval list option" where
  "as_list s (PList xs) = Some xs"
| "as_list s (PTuple xs) = Some xs"
| "as_list s (PGen xs) = Some xs"
| "as_list s (PStr t) = Some (map (\<lambda>c. PStr [c]) t)"
| "as_list s (PDict d) = Some (map (\<lambda>kv. PStr (fst kv)) d)"
| "as_list s (PRef r) =
     (case s r of
        None \<Rightarrow> None
      | Some n \<Rightarrow> (if is_dom (cls n) then Some (childs n) else None))"
| "as_list s _ = None"

definition replace_with :: "ref \<Rightarrow> pyval \<Rightarrow> store \<Rightarrow> ref outcome" where
  "replace_with r other s =
     (case s r of
        None \<Rightarrow> (Inl NotModelled, s)
      | Some n \<Rightarrow>
          (if is_dom (cls n) then
             (case (case other of
                      PRef q \<Rightarrow> (case s q of None \<Rightarrow> None | Some qn \<Rightarrow> (if is_dom (cls qn) then Some q else None))
                    | _ \<Rightarrow> None) of
                Some q \<Rightarrow> (Inr q, s)
              | None \<Rightarrow>
                  (case as_list s other of
                     None \<Rightarrow> (Inl TagError, s)
                   | Some xs \<Rightarrow>
                       (case parent n of
                          None \<Rightarrow> (Inl AttributeError, s)
                        | Some p \<Rightarrow>
                            (case s p of
                               None \<Rightarrow> (Inl NotModelled, s)
                             | Some pn \<Rightarrow>
                                 (case own_index r s of
                                    Inl e \<Rightarrow> (Inl e, s)
                                  | Inr None \<Rightarrow> (Inl TypeError, s)
                                  | Inr (Some k) \<Rightarrow>
                                      (Inr r, s(p \<mapsto> pn\<lparr>childs := take k (childs pn) @ xs @ drop (Suc k) (childs pn)\<rparr>)))))))
           else (Inl AttributeError, s)))"

text \<open>
  \<^verbatim>\<open>empty\<close> builds \<^verbatim>\<open>map(lambda child: self.pop(child._own_index), self.childs)\<close>
  and drops it. In Python 3 \<^verbatim>\<open>map\<close> returns a lazy iterator, which nothing consumes:
  the lambda is never called.
\<close>

definition empty :: "ref \<Rightarrow> store \<Rightarrow> ref outcome" where
  "empty r s =
     (case s r of
        None \<Rightarrow> (Inl NotModelled, s)
      | Some n \<Rightarrow>
          (if is_dom (cls n) then (Inr r, s(r \<mapsto> n\<lparr>p_stable := False\<rparr>))
           else (Inl AttributeError, s)))"

subsection \<open>Content data\<close>

text \<open>\<^verbatim>\<open>inject(contents=None, **kwargs)\<close>, for \<^verbatim>\<open>contents\<close> false or a dictionary.\<close>

definition inject :: "ref \<Rightarrow> pyval \<Rightarrow> (string \<times> pyval) list \<Rightarrow> store \<Rightarrow> ref outcome" where
  "inject r contents kwargs s =
     (case s r of
        None \<Rightarrow> (Inl NotModelled, s)
      | Some n \<Rightarrow>
          (if is_dom (cls n) then
             (let n1 = n\<lparr>p_stable := False\<rparr> in
              case (if truthy s contents then contents else PDict []) of
                PDict d \<Rightarrow>
                  (Inr r, s(r \<mapsto> n1\<lparr>content_data := dict_update (content_data n1) (dict_update d kwargs)\<rparr>))
              | _ \<Rightarrow> (Inl NotModelled, s(r \<mapsto> n1)))
           else (Inl AttributeError, s)))"

text \<open>\<^verbatim>\<open>_find_content\<close> climbs the parent references while the parent is true; the
  bound is the number of steps it may take.\<close>

fun find_content :: "nat \<Rightarrow> ref \<Rightarrow> string option \<Rightarrow> store \<Rightarrow> pyerr + pyval" where
  "find_content 0 r nm s = Inl OutOfFuel"
| "find_content (Suc k) r nm s =
     (case s r of
        None \<Rightarrow> Inl NotModelled
      | Some n \<Rightarrow>
          (case (case nm of None \<Rightarrow> None | Some key \<Rightarrow> map_of (content_data n) key) of
             Some v \<Rightarrow> Inr v
           | None \<Rightarrow>
               (case parent n of
                  None \<Rightarrow> Inr (PStr [])
                | Some p \<Rightarrow> (if truthy s (PRef p) then find_content k p nm s else Inr (PStr [])))))"

section \<open>Content: the placeholder\<close>

text \<open>
  The property \<^verbatim>\<open>content\<close>: the fixed content when it is true, else what
  \<^verbatim>\<open>self.parent._find_content(self._name)\<close> finds. A true value is returned as a list
  (a sequence or any other iterable through \<^verbatim>\<open>list\<close>) or as the one-element tuple;
  a false value makes the property raise StopIteration. The property is an ordinary
  function, so the exception leaves it as such. A generator among the content data is
  used up by the first \<^verbatim>\<open>list\<close>, which needs a store of generator states: it is left
  out.
\<close>

definition content :: "nat \<Rightarrow> ref \<Rightarrow> store \<Rightarrow> pyerr + pyval list" where
  "content k r s =
     (case s r of
        None \<Rightarrow> Inl NotModelled
      | Some n \<Rightarrow>
          (case (if truthy s (p_fixed_content n) then Inr (p_fixed_content n)
                 else (case parent n of
                         None \<Rightarrow> Inl AttributeError
                       | Some p \<Rightarrow> find_content k p (p_name n) s)) of
             Inl e \<Rightarrow> Inl e
           | Inr c \<Rightarrow>
               (if truthy s c then
                  (case c of
                     PGen ys \<Rightarrow> Inl NotModelled
                   | _ \<Rightarrow> (case as_list s c of Some xs \<Rightarrow> Inr xs | None \<Rightarrow> Inr [c]))
                else Inl StopIteration)))"

section \<open>Css: the style sheet\<close>

text \<open>
  \<^verbatim>\<open>Css.render\<close> works through a queue of pairs (selector path, mapping), starting
  with the attribute container. \<open>css_items\<close> is the inner loop over one mapping: a
  text value and the result of a function become a declaration
  \<^verbatim>\<open>'%s: %s; %s' % (key, value, "\n" if pretty else "")\<close>, a dictionary is put at the
  end of the queue with its key added to the path, anything else is skipped.
  After each mapping, once the result is not empty, the loop appends
  \<^verbatim>\<open>"}" + "\n\n" if pretty else ""\<close>, which Python reads as
  \<^verbatim>\<open>("}" + "\n\n") if pretty else ""\<close>.
\<close>

type_synonym rule_queue = "(string list \<times> (string \<times> pyval) list) list"

fun css_items :: "bool \<Rightarrow> string list \<Rightarrow> (string \<times> pyval) list \<Rightarrow> string list \<Rightarrow> rule_queue \<Rightarrow> pyerr + (string list \<times> rule_queue)" where
  "css_items pretty parents [] result queue = Inr (result, queue)"
| "css_items pretty parents (kv # kvs) result queue =
     (case snd kv of
        PStr t \<Rightarrow>
          css_items pretty parents kvs
            (result @ [fst kv @ '': '' @ t @ ''; '' @ (if pretty then [CHR 0x0A] else [])]) queue
      | PFun v \<Rightarrow>
          (case py_str v of
             Inl e \<Rightarrow> Inl e
           | Inr t \<Rightarrow>
               css_items pretty parents kvs
                 (result @ [fst kv @ '': '' @ t @ ''; '' @ (if pretty then [CHR 0x0A] else [])]) queue)
      | PDict d \<Rightarrow> css_items pretty parents kvs result (queue @ [(parents @ [fst kv], d)])
      | _ \<Rightarrow> css_items pretty parents kvs result queue)"

definition queue_size :: "rule_queue \<Rightarrow> nat" where
  "queue_size q = sum_list (map (\<lambda>pd. size (PDict (snd pd))) q)"

function css_loop :: "bool \<Rightarrow> rule_queue \<Rightarrow> string list \<Rightarrow> pyerr + string list" where
  "css_loop pretty [] result = Inr result"
| "css_loop pretty (pn # queue) result =
     (let result1 = (if fst pn \<noteq> [] then result @ [join '' '' (fst pn) @ '' { ''] else result) in
      case css_items pretty (fst pn) (snd pn) result1 queue of
        Inl e \<Rightarrow> Inl e
      | Inr rq \<Rightarrow>
          css_loop pretty (snd rq)
            (if fst rq \<noteq> [] then fst rq @ [if pretty then ''}'' @ [CHR 0x0A, CHR 0x0A] else []]
             else fst rq))"
  by pat_completeness auto
termination
proof (relation "measure (\<lambda>(pretty, q, result). queue_size q)", goal_cases)
  case 1
  show ?case by simp
next
  case (2 pretty pn queue result x xa)
  have grow: "css_items pretty parents kvs res q = Inr (res', q') \<Longrightarrow>
      queue_size q' \<le> queue_size q + size (PDict kvs) - 1" for parents kvs res q res' q'
  proof (induction kvs arbitrary: res q)
    case Nil
    then show ?case by simp
  next
    case (Cons kv kvs)
    obtain key v where kv: "kv = (key, v)" by (cases kv)
    show ?case
    proof (cases v)
      case (PDict d)
      with Cons.prems kv have "css_items pretty parents kvs res (q @ [(parents @ [key], d)]) = Inr (res', q')"
        by simp
      from Cons.IH[OF this] PDict kv show ?thesis
        by (simp add: queue_size_def)
    next
      case (PFun w)
      with Cons.prems kv obtain t where
        "css_items pretty parents kvs (res @ [key @ '': '' @ t @ ''; '' @ (if pretty then [CHR 0x0A] else [])]) q = Inr (res', q')"
        by (auto split: sum.splits)
      from Cons.IH[OF this] show ?thesis by simp
    next
      case (PStr t)
      with Cons.prems kv have
        "css_items pretty parents kvs (res @ [key @ '': '' @ t @ ''; '' @ (if pretty then [CHR 0x0A] else [])]) q = Inr (res', q')"
        by simp
      from Cons.IH[OF this] show ?thesis by simp
    qed (use Cons.prems kv in \<open>auto dest!: Cons.IH\<close>)
  qed
  obtain r' q' where xa: "xa = (r', q')" by (cases xa)
  from 2 xa have "queue_size q' \<le> queue_size queue + size (PDict (snd pn)) - 1"
    using grow by blast
  with xa show ?case by (simp add: queue_size_def)
qed

definition css_render :: "bool \<Rightarrow> (string \<times> pyval) list \<Rightarrow> pyerr + string" where
  "css_render pretty a =
     (case css_loop pretty [([], a)] [] of
        Inl e \<Rightarrow> Inl e
      | Inr result \<Rightarrow> Inr (''<style>'' @ concat result @ ''</style>''))"

section \<open>Rendering\<close>

text \<open>
  \<^verbatim>\<open>_get_child_renders\<close> joins the strings of a generator expression over the
  children. An exception other than StopIteration raised in the expression passes
  through. StopIteration raised in it is turned into RuntimeError by the interpreter
  when the flag \<open>gs\<close> is set (PEP 479, the rule from Python 3.7 on); without the flag
  (Python up to 3.6) it ends the generator, and \<^verbatim>\<open>join\<close> returns what was produced
  before. \<open>rend\<close> is the \<^verbatim>\<open>render\<close> method of a child object.
\<close>

fun child_renders :: "(ref \<Rightarrow> store \<Rightarrow> string outcome) \<Rightarrow> bool \<Rightarrow> pyval list \<Rightarrow> store \<Rightarrow> string outcome" where
  "child_renders rend gs [] s = (Inr [], s)"
| "child_renders rend gs (c # cs) s =
     (case (case c of
              PRef q \<Rightarrow> rend q s
            | _ \<Rightarrow> (py_str c, s)) of
        (Inl e, s1) \<Rightarrow>
          (if e = StopIteration then (if gs then (Inl RuntimeError, s1) else (Inr [], s1))
           else (Inl e, s1))
      | (Inr t, s1) \<Rightarrow>
          (case child_renders rend gs cs s1 of
             (Inl e, s2) \<Rightarrow> (Inl e, s2)
           | (Inr rest, s2) \<Rightarrow> (Inr (t @ rest), s2)))"

text \<open>
  \<^verbatim>\<open>Tag.render\<close> without arguments: the cached string when \<^verbatim>\<open>self._stable\<close>
  and \<^verbatim>\<open>self._render\<close> are true, else the template filled with the tag name, the
  rendered attributes and the children's renders, which is stored and marked stable.
  The test reads the flag \<^verbatim>\<open>_stable\<close> of the element itself, not the property
  \<^verbatim>\<open>stable\<close> that also asks the children.
\<close>

definition tag_render :: "(ref \<Rightarrow> store \<Rightarrow> string outcome) \<Rightarrow> bool \<Rightarrow> ref \<Rightarrow> store \<Rightarrow> string outcome" where
  "tag_render rend gs r s =
     (case s r of
        None \<Rightarrow> (Inl NotModelled, s)
      | Some n \<Rightarrow>
          (if p_stable n \<and> (case p_render n of None \<Rightarrow> False | Some c \<Rightarrow> c \<noteq> []) then
             (case p_render n of None \<Rightarrow> (Inl NotModelled, s) | Some c \<Rightarrow> (Inr c, s))
           else
             (case tag_name n of
                None \<Rightarrow> (Inl AttributeError, s)
              | Some t \<Rightarrow>
                  (case attrs_render s n of
                     Inl e \<Rightarrow> (Inl e, s)
                   | Inr a \<Rightarrow>
                       (case (if cls n \<noteq> VoidTag \<and> childs n \<noteq> [] then child_renders rend gs (childs n) s
                              else (Inr [], s)) of
                          (Inl e, s1) \<Rightarrow> (Inl e, s1)
                        | (Inr inner, s1) \<Rightarrow>
                            (case s1 r of
                               None \<Rightarrow> (Inl NotModelled, s1)
                             | Some n1 \<Rightarrow>
                                 (let out = (if cls n = VoidTag then ''<'' @ t @ a @ ''/>''
                                             else ''<'' @ t @ a @ ''>'' @ inner @ ''</'' @ t @ ''>'')
                                  in (Inr out, s1(r \<mapsto> n1\<lparr>p_render := Some out, p_stable := True\<rparr>)))))))))"

text \<open>\<^verbatim>\<open>Content.render\<close>: each item of \<^verbatim>\<open>self.content\<close> is rendered when it
  is a \<^verbatim>\<open>DOMElement\<close>, passed through a true template, or converted with
  \<^verbatim>\<open>str\<close>.\<close>

fun items_render :: "(ref \<Rightarrow> store \<Rightarrow> string outcome) \<Rightarrow> ref option \<Rightarrow> pyval list \<Rightarrow> store \<Rightarrow> string outcome" where
  "items_render rend tmpl [] s = (Inr [], s)"
| "items_render rend tmpl (c # cs) s =
     (case (case (case c of
                    PRef q \<Rightarrow> (case s q of None \<Rightarrow> None | Some qn \<Rightarrow> (if is_dom (cls qn) then Some q else None))
                  | _ \<Rightarrow> None) of
              Some q \<Rightarrow> rend q s
            | None \<Rightarrow>
                (case (case tmpl of None \<Rightarrow> None | Some t \<Rightarrow> (if truthy s (PRef t) then Some t else None)) of
                   Some t \<Rightarrow>
                     (case inject t c [] s of
                        (Inl e, s1) \<Rightarrow> (Inl e, s1)
                      | (Inr _, s1) \<Rightarrow>
                          (case inject t c [] s1 of
                             (Inl e, s2) \<Rightarrow> (Inl e, s2)
                           | (Inr _, s2) \<Rightarrow> rend t s2))
                 | None \<Rightarrow> (py_str c, s))) of
        (Inl e, s1) \<Rightarrow> (Inl e, s1)
      | (Inr t, s1) \<Rightarrow>
          (case items_render rend tmpl cs s1 of
             (Inl e, s2) \<Rightarrow> (Inl e, s2)
           | (Inr rest, s2) \<Rightarrow> (Inr (t @ rest), s2)))"

definition content_render :: "(ref \<Rightarrow> store \<Rightarrow> string outcome) \<Rightarrow> nat \<Rightarrow> ref \<Rightarrow> store \<Rightarrow> string outcome" where
  "content_render rend k r s =
     (case s r of
        None \<Rightarrow> (Inl NotModelled, s)
      | Some n \<Rightarrow>
          (case content k r s of
             Inl e \<Rightarrow> (Inl e, s)
           | Inr items \<Rightarrow> items_render rend (p_template n) items s))"

text \<open>
  \<^verbatim>\<open>obj.render()\<close>, by the class of the object. The parent links can form a cycle,
  so the recursion through the children carries a bound \<open>k\<close> on its depth;
  \<open>OutOfFuel\<close> is the outcome when the bound is too small.
\<close>

primrec render_obj :: "bool \<Rightarrow> nat \<Rightarrow> ref \<Rightarrow> store \<Rightarrow> string outcome" where
  "render_obj gs 0 = (\<lambda>r s. (Inl OutOfFuel, s))"
| "render_obj gs (Suc k) = (\<lambda>r s.
     (case s r of
        None \<Rightarrow> (Inl NotModelled, s)
      | Some n \<Rightarrow>
          (case cls n of
             DOMElement \<Rightarrow> (Inl NotImplementedError, s)
           | Tag \<Rightarrow> tag_render (render_obj gs k) gs r s
           | VoidTag \<Rightarrow> tag_render (render_obj gs k) gs r s
           | Css \<Rightarrow> (css_render False (attrs n), s)
           | Content \<Rightarrow> content_render (render_obj gs k) k r s)))"

text \<open>\<^verbatim>\<open>Tag.render(*args, **kwargs)\<close> injects every dictionary among \<^verbatim>\<open>args\<close> and
  then \<^verbatim>\<open>kwargs\<close> if not empty; \<^verbatim>\<open>Css.render\<close> takes \<^verbatim>\<open>pretty\<close> from the
  keywords.\<close>

fun inject_args :: "ref \<Rightarrow> pyval list \<Rightarrow> store \<Rightarrow> unit outcome" where
  "inject_args r [] s = (Inr (), s)"
| "inject_args r (PDict d # as) s =
     (case inject r (PDict d) [] s of
        (Inl e, s1) \<Rightarrow> (Inl e, s1)
      | (Inr _, s1) \<Rightarrow> inject_args r as s1)"
| "inject_args r (_ # as) s = inject_args r as s"

definition render :: "bool \<Rightarrow> nat \<Rightarrow> ref \<Rightarrow> pyval list \<Rightarrow> (string \<times> pyval) list \<Rightarrow> store \<Rightarrow> string outcome" where
  "render gs k r args kwargs s =
     (case s r of
        None \<Rightarrow> (Inl NotModelled, s)
      | Some n \<Rightarrow>
          (case cls n of
             Css \<Rightarrow>
               (css_render (case map_of kwargs ''pretty'' of None \<Rightarrow> False | Some v \<Rightarrow> truthy s v) (attrs n), s)
           | Content \<Rightarrow> render_obj gs k r s
           | DOMElement \<Rightarrow> (Inl NotImplementedError, s)
           | _ \<Rightarrow>
               (case inject_args r args s of
                  (Inl e, s1) \<Rightarrow> (Inl e, s1)
                | (Inr _, s1) \<Rightarrow>
                    (case (if kwargs \<noteq> [] then inject r (PDict kwargs) [] s1 else (Inr r, s1)) of
                       (Inl e, s2) \<Rightarrow> (Inl e, s2)
                     | (Inr _, s2) \<Rightarrow> render_obj gs k r s2))))"

text \<open>Discarding every cached render and stability flag.\<close>

definition clear_cache :: "store \<Rightarrow> store" where
  "clear_cache s = (\<lambda>r. map_option (\<lambda>n. n\<lparr>p_stable := False, p_render := None\<rparr>) (s r))"

section \<open>Constructors\<close>

text \<open>
  A constructor is given the reference of the new object (its \<^verbatim>\<open>uuid\<close>).
  \<^verbatim>\<open>Tag.__init__(**kwargs)\<close> checks the needed keywords, fills the attribute
  container with \<^verbatim>\<open>self.attr(**kwargs)\<close> (where a keyword named \<^verbatim>\<open>attrs\<close> binds the
  first parameter of \<^verbatim>\<open>attr\<close>, and is used when it is a true dictionary), and a void
  tag renders itself at once. \<open>t\<close> is the \<^verbatim>\<open>__tag\<close> and
  \<open>needed\<close> the \<^verbatim>\<open>_needed_kwargs\<close> of the concrete class.
\<close>

definition DOMElement_init :: "ref \<Rightarrow> store \<Rightarrow> ref outcome" where
  "DOMElement_init r s = (Inr r, s(r \<mapsto> blank DOMElement))"

definition Tag_init :: "bool \<Rightarrow> pyclass \<Rightarrow> string option \<Rightarrow> string list \<Rightarrow> (string \<times> pyval) list \<Rightarrow> ref \<Rightarrow> store \<Rightarrow> ref outcome" where
  "Tag_init gs c t needed kwargs r s =
     (if needed \<noteq> [] \<and> \<not> list_all (\<lambda>k. k \<in> set (map fst kwargs)) needed then (Inl TagError, s)
      else
        (case (case map_of kwargs ''attrs'' of
                 None \<Rightarrow> update (Some kwargs) [] []
               | Some v \<Rightarrow>
                   (if truthy s v then
                      (case v of
                         PDict d \<Rightarrow> update (Some d) [] []
                       | _ \<Rightarrow> (Inl NotModelled, []))
                    else update (Some (AList.delete ''attrs'' kwargs)) [] [])) of
           (Inl e, a) \<Rightarrow> (Inl e, s)
         | (Inr _, a) \<Rightarrow>
             (let s1 = s(r \<mapsto> (blank c)\<lparr>tag_name := t, attrs := a\<rparr>) in
              if c = VoidTag then
                (case render_obj gs (Suc 0) r s1 of
                   (Inl e, s2) \<Rightarrow> (Inl e, s)
                 | (Inr _, s2) \<Rightarrow> (Inr r, s2))
              else (Inr r, s1))))"

definition Content_init :: "string option \<Rightarrow> pyval \<Rightarrow> ref option \<Rightarrow> ref \<Rightarrow> store \<Rightarrow> ref outcome" where
  "Content_init nm cont tmpl r s =
     (if (case nm of None \<Rightarrow> True | Some t \<Rightarrow> t = []) \<and> \<not> truthy s cont then (Inl TagError, s)
      else (Inr r, s(r \<mapsto> (blank Content)\<lparr>p_name := nm, p_fixed_content := cont, p_template := tmpl\<rparr>)))"

section \<open>The tag catalogue\<close>

text \<open>
  Modelled from the spec: the catalogue of concrete element types is not part of the
  sources at hand; the spec describes its members as parameterizations of the generic
  element with a fixed name and a void flag. The ones used below are plain
  (non-void) tags without needed keywords.
\<close>

definition Div :: "(string \<times> pyval) list \<Rightarrow> ref \<Rightarrow> store \<Rightarrow> ref outcome" where
  "Div = Tag_init True Tag (Some ''div'') []"

definition P :: "(string \<times> pyval) list \<Rightarrow> ref \<Rightarrow> store \<Rightarrow> ref outcome" where
  "P = Tag_init True Tag (Some ''p'') []"

section \<open>Sequences of mutations, and the states used below\<close>

text \<open>
  The structural methods as one datatype, so that a program is a list of calls. A call
  that raises leaves the store as it was at the raise, and the program goes on with the
  next call, as a caller does that catches the exception.
\<close>

datatype mutation =
    Insert ref pyval "int option" bool
  | Call ref "pyval list" "(string \<times> pyval) list"
  | Append ref "pyval list" "(string \<times> pyval) list"
  | Prepend ref "pyval list" "(string \<times> pyval) list"
  | Before ref "pyval list" "(string \<times> pyval) list"
  | After ref "pyval list" "(string \<times> pyval) list"
  | Move ref ref "int option" bool
  | Wrap ref ref
  | Remove ref
  | Pop ref "int option"

fun apply_mutation :: "mutation \<Rightarrow> store \<Rightarrow> store" where
  "apply_mutation (Insert r c i p) s = snd (p_insert r c i p s)"
| "apply_mutation (Call r ts kw) s = snd (call r ts kw s)"
| "apply_mutation (Append r ts kw) s = snd (append r ts kw s)"
| "apply_mutation (Prepend r ts kw) s = snd (prepend r ts kw s)"
| "apply_mutation (Before r ts kw) s = snd (before r ts kw s)"
| "apply_mutation (After r ts kw) s = snd (after r ts kw s)"
| "apply_mutation (Move r f i p) s = snd (move r f i p s)"
| "apply_mutation (Wrap r other) s = snd (wrap r other s)"
| "apply_mutation (Remove r) s = snd (remove r s)"
| "apply_mutation (Pop r i) s = snd (pop r i s)"

definition run :: "mutation list \<Rightarrow> store \<Rightarrow> store" where
  "run ms s = fold apply_mutation ms s"

text \<open>
  The link that insertion and removal keep: a \<^verbatim>\<open>DOMElement\<close> whose parent reference
  is set is among the children of the object it refers to.
\<close>

definition parent_linked :: "store \<Rightarrow> bool" where
  "parent_linked s \<longleftrightarrow>
     (\<forall>r n p. s r = Some n \<and> is_dom (cls n) \<and> parent n = Some p
        \<longrightarrow> (\<exists>pn. s p = Some pn \<and> PRef r \<in> set (childs pn)))"

text \<open>
  The names under which this holds: no object carries a symbolic name that shadows an
  attribute of the element classes, so that the \<^verbatim>\<open>setattr\<close> of \<^verbatim>\<open>_insert\<close> only
  ever creates new attributes.
\<close>

definition plain_names :: "store \<Rightarrow> bool" where
  "plain_names s \<longleftrightarrow> (\<forall>r n nm. s r = Some n \<and> p_name n = Some nm \<longrightarrow> \<not> shadows nm)"

definition tree_ok :: "store \<Rightarrow> bool" where
  "tree_ok s \<longleftrightarrow> plain_names s \<and> parent_linked s"

text \<open>The attribute string of an element, \<^verbatim>\<open>self.attrs.render()\<close>, and the two
  style writes \<^verbatim>\<open>css({'color': 'red'})\<close>, \<^verbatim>\<open>css({'border': '1px'})\<close>.\<close>

definition attr_string :: "store \<Rightarrow> ref \<Rightarrow> pyerr + string" where
  "attr_string s r = (case s r of None \<Rightarrow> Inl NotModelled | Some n \<Rightarrow> attrs_render s n)"

definition styled_twice :: "ref \<Rightarrow> store \<Rightarrow> store" where
  "styled_twice r s =
     snd (css r [PDict [(''border'', PStr ''1px'')]] []
       (snd (css r [PDict [(''color'', PStr ''red'')]] [] s)))"

text \<open>
  Concrete states: \<open>fresh4\<close> is \<^verbatim>\<open>Div()\<close> and three \<^verbatim>\<open>P()\<close>, unlinked, with the
  references 0 to 3; \<open>div_p\<close> is \<^verbatim>\<open>Div()(P())\<close>; \<open>div_p_p\<close> is \<^verbatim>\<open>Div()(P(), P())\<close>;
  \<open>div_placeholder\<close> is \<^verbatim>\<open>Div()('before', Content(name='x'), 'after')\<close>; \<open>sheet\<close> is
  a \<^verbatim>\<open>Css\<close> element built with the keyword \<^verbatim>\<open>'html body'\<close> bound to
  \<^verbatim>\<open>{'color': 'red'}\<close>; \<open>div_id\<close> is \<^verbatim>\<open>Div(id='x')\<close> and \<open>div_border\<close> is
  \<^verbatim>\<open>Div(style={'border': '0'})\<close>.
\<close>

definition fresh4 :: store where
  "fresh4 = snd (P [] 3 (snd (P [] 2 (snd (P [] 1 (snd (Div [] 0 Map.empty)))))))"

definition div_p :: store where
  "div_p = snd (call 0 [PRef 1] [] fresh4)"

definition div_p_p :: store where
  "div_p_p = snd (call 0 [PRef 1, PRef 2] [] fresh4)"

definition div_placeholder :: store where
  "div_placeholder =
     snd (call 0 [PStr ''before'', PRef 1, PStr ''after''] []
       (snd (Content_init (Some ''x'') PNone None 1 (snd (Div [] 0 Map.empty)))))"

definition sheet :: store where
  "sheet = snd (Tag_init True Css None [] [(''html body'', PDict [(''color'', PStr ''red'')])] 0 Map.empty)"

definition div_id :: store where
  "div_id = snd (Div [(''id'', PStr ''x'')] 0 Map.empty)"

definition div_border :: store where
  "div_border = snd (Div [(''style'', PDict [(''border'', PStr ''0'')])] 0 Map.empty)"

section \<open>Properties of the attribute container\<close>

lemma update_absent: "map_of a k = None \<Longrightarrow> AList.update k v a = a @ [(k, v)]"
  by (induction a) (auto split: if_splits)

lemma update_snoc: "map_of a k = None \<Longrightarrow> AList.update k v (a @ [(k, w)]) = a @ [(k, v)]"
  by (induction a) (auto split: if_splits)

lemma setitem_klass_absent:
  "map_of a ''klass'' = None \<Longrightarrow> setitem ''klass'' c a = (Inr (), a @ [(''klass'', PList [c])])"
  by (simp add: setitem_def MULTI_VALUES_ATTRS_def update_absent update_snoc Let_def map_add_def)

text \<open>
  Claim C10. On an element whose attribute container holds no \<^verbatim>\<open>klass\<close> key,
  \<^verbatim>\<open>add_class\<close> raises KeyError and leaves the container as it was (only the
  stability flag is cleared): it does not create the class list. The list is created by
  an attribute assignment, which goes through \<^verbatim>\<open>TagAttrs.__setitem__\<close>. Likewise
  \<^verbatim>\<open>hide\<close> and \<^verbatim>\<open>toggle\<close> raise KeyError when the container holds no \<^verbatim>\<open>style\<close>
  key.
\<close>

theorem add_class_without_klass_raises:
  assumes "s r = Some n" and "is_tag (cls n)"
  shows "(map_of (attrs n) ''klass'' = None \<longrightarrow>
            add_class r c s = (Inl KeyError, s(r \<mapsto> n\<lparr>p_stable := False\<rparr>)) \<and>
            attr r None [(''klass'', c)] s =
              (Inr r, s(r \<mapsto> n\<lparr>p_stable := False, attrs := attrs n @ [(''klass'', PList [c])]\<rparr>)))
       \<and> (map_of (attrs n) ''style'' = None \<longrightarrow>
            hide r s = (Inl KeyError, s(r \<mapsto> n\<lparr>p_stable := False\<rparr>)) \<and>
            toggle r s = (Inl KeyError, s(r \<mapsto> n\<lparr>p_stable := False\<rparr>)))"
  using assms
  by (simp add: add_class_def hide_def toggle_def attr_def update_def setitem_klass_absent Let_def)

theorem add_class_without_klass_raises_witness:
  "add_class 0 (PStr ''a'') (snd (Div [(''id'', PStr ''x'')] 0 Map.empty)) =
     (Inl KeyError, snd (Div [(''id'', PStr ''x'')] 0 Map.empty))
   \<and> fst (hide 0 (snd (Div [(''id'', PStr ''x'')] 0 Map.empty))) = Inl KeyError
   \<and> fst (toggle 0 (snd (Div [(''id'', PStr ''x'')] 0 Map.empty))) = Inl KeyError
   \<and> fst (add_class 0 (PStr ''b'') (snd (attr 0 None [(''klass'', PStr ''a'')] (snd (Div [(''id'', PStr ''x'')] 0 Map.empty))))) = Inr 0"
proof -
  let ?n = "(blank Tag)\<lparr>tag_name := Some ''div'', attrs := [(''id'', PStr ''x'')]\<rparr>"
  let ?s = "snd (Div [(''id'', PStr ''x'')] 0 Map.empty)"
  have s: "?s = [0 \<mapsto> ?n]"
    by (simp add: Div_def Tag_init_def update_def setitem_def MULTI_VALUES_ATTRS_def MAPPING_ATTRS_def)
  have n: "?s 0 = Some ?n" "is_tag (cls ?n)" "map_of (attrs ?n) ''klass'' = None" "map_of (attrs ?n) ''style'' = None"
    by (simp_all add: s blank_def)
  have st: "?n\<lparr>p_stable := False\<rparr> = ?n" by (simp add: blank_def)
  from add_class_without_klass_raises[where s = ?s and r = 0 and n = ?n and c = "PStr ''a''", OF n(1,2)] n(3,4)
  show ?thesis
    by (simp add: st s add_class_def blank_def)
qed


section \<open>The style key\<close>

lemma setitem_style:
  assumes "map_of a ''style'' = None \<and> d0 = [] \<or> map_of a ''style'' = Some (PDict d0)"
  shows "setitem ''style'' (PDict e) a = (Inr (), AList.update ''style'' (PDict (dict_update d0 e)) a)"
  using assms
  by (auto simp: setitem_def MULTI_VALUES_ATTRS_def MAPPING_ATTRS_def Let_def update_conv')

lemma css_mapping:
  assumes "s r = Some n" and "is_tag (cls n)"
    and "map_of (attrs n) ''style'' = None \<and> d0 = [] \<or> map_of (attrs n) ''style'' = Some (PDict d0)"
  shows "css r [PDict e] [] s =
     (Inr r, s(r \<mapsto> n\<lparr>p_stable := False, attrs := AList.update ''style'' (PDict (dict_update d0 e)) (attrs n)\<rparr>))"
  using assms(1,2) setitem_style[OF assms(3), of e]
  by (simp add: css_def attr_def update_def Let_def)

lemma styled_twice_attrs:
  assumes "s r = Some n" and "is_tag (cls n)"
    and "map_of (attrs n) ''style'' = None \<and> d0 = [] \<or> map_of (attrs n) ''style'' = Some (PDict d0)"
  shows "styled_twice r s =
     s(r \<mapsto> n\<lparr>p_stable := False,
        attrs := AList.update ''style''
          (PDict (AList.update ''border'' (PStr ''1px'') (AList.update ''color'' (PStr ''red'') d0))) (attrs n)\<rparr>)"
proof -
  let ?d1 = "AList.update ''color'' (PStr ''red'') d0"
  let ?n1 = "n\<lparr>p_stable := False, attrs := AList.update ''style'' (PDict ?d1) (attrs n)\<rparr>"
  have 1: "css r [PDict [(''color'', PStr ''red'')]] [] s = (Inr r, s(r \<mapsto> ?n1))"
    using css_mapping[where s = s and r = r and n = n and ?d0.0 = d0 and e = "[(''color'', PStr ''red'')]", OF assms]
    by (simp add: dict_update_def)
  have 2: "css r [PDict [(''border'', PStr ''1px'')]] [] (s(r \<mapsto> ?n1)) =
      (Inr r, (s(r \<mapsto> ?n1))(r \<mapsto> ?n1\<lparr>p_stable := False,
         attrs := AList.update ''style'' (PDict (dict_update ?d1 [(''border'', PStr ''1px'')])) (attrs ?n1)\<rparr>))"
    by (rule css_mapping) (use assms(2) in \<open>simp_all add: update_conv'\<close>)
  show ?thesis
    unfolding styled_twice_def 1 by (simp add: 2 dict_update_def)
qed

lemma truthy_frame:
  assumes "\<And>q. map_option (\<lambda>n. (cls n, childs n)) (s' q) = map_option (\<lambda>n. (cls n, childs n)) (s q)"
  shows "truthy s' v = truthy s v"
proof (cases v)
  case (PRef q)
  from assms[of q] show ?thesis unfolding PRef
    by (cases "s q"; cases "s' q") auto
qed simp_all

lemma render_items_frame:
  assumes "\<And>q. map_option (\<lambda>n. (cls n, childs n)) (s' q) = map_option (\<lambda>n. (cls n, childs n)) (s q)"
  shows "render_items s' kvs = render_items s kvs"
  by (induction kvs) (auto simp: truthy_frame[of s' s, OF assms] split: sum.splits)

lemma render_items_style:
  assumes "map_of a ''style'' = None \<or> map_of a ''style'' = Some (PDict [])"
    and "render_items s a = Inr t" and "format_value ''style'' (PDict D) = Inr X" and "D \<noteq> []"
  shows \<open>\<exists>pre post. t = pre @ post \<and>
     render_items s (AList.update ''style'' (PDict D) a) = Inr (pre @ '' style="'' @ X @ ''"'' @ post)\<close>
  using assms(1,2)
proof (induction a arbitrary: t)
  case Nil
  then show ?case using assms(3,4) by (simp add: special_def SPECIALS_def)
next
  case (Cons kv a)
  obtain k v where kv: "kv = (k, v)" by (cases kv)
  show ?case
  proof (cases "k = ''style''")
    case True
    with Cons.prems kv have "v = PDict []" by auto
    with Cons.prems kv True have "render_items s a = Inr t" by simp
    with kv True assms(3,4) show ?thesis
      by (intro exI[of _ "[]"] exI[of _ t]) (simp add: special_def SPECIALS_def)
  next
    case False
    with Cons.prems kv have st: "map_of a ''style'' = None \<or> map_of a ''style'' = Some (PDict [])"
      by auto
    show ?thesis
    proof (cases "truthy s v")
      case True
      with Cons.prems(2) kv obtain h t' where h: "format_value k v = Inr h" "render_items s a = Inr t'"
        "t = '' '' @ special k @ ''=\"'' @ h @ ''\"'' @ t'"
        by (auto split: sum.splits)
      from Cons.IH[OF st h(2)] obtain pre post where pp: "t' = pre @ post"
        "render_items s (AList.update ''style'' (PDict D) a) = Inr (pre @ '' style=\"'' @ X @ ''\"'' @ post)"
        by blast
      show ?thesis
        using kv False True h pp
        by (intro exI[of _ "'' '' @ special k @ ''=\"'' @ h @ ''\"'' @ pre"] exI[of _ post]) simp
    next
      case nt: False
      with Cons.prems(2) kv have "render_items s a = Inr t" by simp
      from Cons.IH[OF st this] kv False nt show ?thesis by simp
    qed
  qed
qed

text \<open>
  Claim C9, as amended. Two writes of the style key merge: after
  \<^verbatim>\<open>css({'color': 'red'})\<close> and \<^verbatim>\<open>css({'border': '1px'})\<close> the style mapping of
  any element holds both properties and keeps every other property it had. When the
  element had no style property before (no style key, or an empty style mapping), its
  attribute string is the former one with \<^verbatim>\<open> style="color: red; border: 1px;"\<close>
  put in. (A property the mapping already holds keeps its place, which is why the
  exact text is not promised for every element.)
\<close>

theorem style_writes_merge:
  assumes "s r = Some n" and "is_tag (cls n)"
  shows \<open>(map_of (attrs n) ''style'' = None \<and> d0 = [] \<or> map_of (attrs n) ''style'' = Some (PDict d0) \<longrightarrow>
            (\<exists>n' d. styled_twice r s r = Some n' \<and> map_of (attrs n') ''style'' = Some (PDict d)
               \<and> map_of d ''color'' = Some (PStr ''red'') \<and> map_of d ''border'' = Some (PStr ''1px'')
               \<and> (\<forall>k. k \<noteq> ''color'' \<and> k \<noteq> ''border'' \<longrightarrow> map_of d k = map_of d0 k)))
       \<and> ((map_of (attrs n) ''style'' = None \<or> map_of (attrs n) ''style'' = Some (PDict []))
            \<and> p_comment n = None \<and> attr_string s r = Inr t \<longrightarrow>
            (\<exists>pre post. t = pre @ post \<and>
               attr_string (styled_twice r s) r = Inr (pre @ '' style="color: red; border: 1px;"'' @ post)))\<close>
proof (intro conjI impI)
  assume "map_of (attrs n) ''style'' = None \<and> d0 = [] \<or> map_of (attrs n) ''style'' = Some (PDict d0)"
  from styled_twice_attrs[where s = s and r = r and n = n and ?d0.0 = d0, OF assms this]
  show "\<exists>n' d. styled_twice r s r = Some n' \<and> map_of (attrs n') ''style'' = Some (PDict d)
               \<and> map_of d ''color'' = Some (PStr ''red'') \<and> map_of d ''border'' = Some (PStr ''1px'')
               \<and> (\<forall>k. k \<noteq> ''color'' \<and> k \<noteq> ''border'' \<longrightarrow> map_of d k = map_of d0 k)"
    by (simp add: update_conv')
next
  assume a: "(map_of (attrs n) ''style'' = None \<or> map_of (attrs n) ''style'' = Some (PDict []))
            \<and> p_comment n = None \<and> attr_string s r = Inr t"
  let ?D = "[(''color'', PStr ''red''), (''border'', PStr ''1px'')]"
  from a have st: "map_of (attrs n) ''style'' = None \<and> ([]::(string \<times> pyval) list) = [] \<or> map_of (attrs n) ''style'' = Some (PDict [])"
    by simp
  have tw: "styled_twice r s = s(r \<mapsto> n\<lparr>p_stable := False, attrs := AList.update ''style'' (PDict ?D) (attrs n)\<rparr>)"
    using styled_twice_attrs[where s = s and r = r and n = n and ?d0.0 = "[]", OF assms st] by simp
  have fr: "render_items (styled_twice r s) kvs = render_items s kvs" for kvs
    by (rule render_items_frame) (use assms(1) in \<open>simp add: tw\<close>)
  from a have c: "p_comment n = None" and as: "attr_string s r = Inr t" by simp_all
  from as c assms(1) have t: "render_items s (attrs n) = Inr t"
    by (simp add: attr_string_def attrs_render_def)
  have fv: "format_value ''style'' (PDict ?D) = Inr ''color: red; border: 1px;''"
    by (simp add: format_value_def)
  from render_items_style[OF conjunct1[OF a] t fv]
  obtain pre post where pp: "t = pre @ post"
    and R: \<open>render_items s (AList.update ''style'' (PDict ?D) (attrs n)) = Inr (pre @ '' style="'' @ ''color: red; border: 1px;'' @ ''"'' @ post)\<close>
    by blast
  have \<open>attr_string (styled_twice r s) r = Inr (pre @ '' style="color: red; border: 1px;"'' @ post)\<close>
    unfolding attr_string_def using c R by (simp add: tw attrs_render_def fr[unfolded tw])
  with pp show \<open>\<exists>pre post. t = pre @ post \<and>
               attr_string (styled_twice r s) r = Inr (pre @ '' style="color: red; border: 1px;"'' @ post)\<close>
    by blast
qed

theorem style_writes_merge_witness:
  \<open>attr_string div_id 0 = Inr '' id="x"''
   \<and> (\<exists>pre post. '' id="x"'' = pre @ post \<and>
         attr_string (styled_twice 0 div_id) 0 = Inr (pre @ '' style="color: red; border: 1px;"'' @ post))
   \<and> (\<exists>n' d. styled_twice 0 div_id 0 = Some n' \<and> map_of (attrs n') ''style'' = Some (PDict d)
               \<and> map_of d ''color'' = Some (PStr ''red'') \<and> map_of d ''border'' = Some (PStr ''1px''))\<close>
proof -
  let ?n = "(blank Tag)\<lparr>tag_name := Some ''div'', attrs := [(''id'', PStr ''x'')]\<rparr>"
  have s: "div_id = [0 \<mapsto> ?n]"
    by (simp add: div_id_def Div_def Tag_init_def update_def setitem_def MULTI_VALUES_ATTRS_def MAPPING_ATTRS_def)
  have n: "div_id 0 = Some ?n" "is_tag (cls ?n)" by (simp_all add: s blank_def)
  have a: \<open>attr_string div_id 0 = Inr '' id="x"''\<close>
    by (simp add: s attr_string_def attrs_render_def blank_def format_value_def special_def SPECIALS_def)
  have h: "map_of (attrs ?n) ''style'' = None" "p_comment ?n = None" by (simp_all add: blank_def)
  from style_writes_merge[where s = div_id and r = 0 and n = ?n and ?d0.0 = "[]" and t = \<open>'' id="x"''\<close>, OF n] h a
  show ?thesis by auto
qed

text \<open>
  The claim as stated, for every element, fails on \<^verbatim>\<open>Div(style={'border': '0'})\<close>:
  the second write replaces the value of \<^verbatim>\<open>border\<close> where it stands, before
  \<^verbatim>\<open>color\<close>.
\<close>

theorem style_order_counterexample:
  \<open>attr_string (styled_twice 0 div_border) 0 = Inr '' style="border: 1px; color: red;"''
   \<and> \<not> sublist ''style="color: red; border: 1px;"'' '' style="border: 1px; color: red;"''\<close>
  by code_simp

section \<open>Parent links\<close>

lemma linked_frame:
  assumes "parent_linked s" and "s r = Some n" and "cls n' = cls n"
    and "parent n' = parent n \<or> parent n' = None" and "set (childs n) \<subseteq> set (childs n')"
  shows "parent_linked (s(r \<mapsto> n'))"
  unfolding parent_linked_def
proof (intro allI impI, elim conjE)
  fix r0 n0 p0
  assume a: "(s(r \<mapsto> n')) r0 = Some n0" "is_dom (cls n0)" "parent n0 = Some p0"
  have "\<exists>n1. s r0 = Some n1 \<and> is_dom (cls n1) \<and> parent n1 = Some p0"
    using a assms(2,3,4) by (cases "r0 = r") auto
  then obtain pn where pn: "s p0 = Some pn" "PRef r0 \<in> set (childs pn)"
    using assms(1) unfolding parent_linked_def by blast
  show "\<exists>pn. (s(r \<mapsto> n')) p0 = Some pn \<and> PRef r0 \<in> set (childs pn)"
    using pn assms(2,5) by (cases "p0 = r") auto
qed

lemma linked_set_parent:
  assumes "parent_linked s" and "s c = Some cn" and "s p = Some pn" and "PRef c \<in> set (childs pn)"
  shows "parent_linked (s(c \<mapsto> cn\<lparr>parent := Some p\<rparr>))"
  unfolding parent_linked_def
proof (intro allI impI, elim conjE)
  fix r0 n0 p0
  assume a: "(s(c \<mapsto> cn\<lparr>parent := Some p\<rparr>)) r0 = Some n0" "is_dom (cls n0)" "parent n0 = Some p0"
  show "\<exists>pn'. (s(c \<mapsto> cn\<lparr>parent := Some p\<rparr>)) p0 = Some pn' \<and> PRef r0 \<in> set (childs pn')"
  proof (cases "r0 = c")
    case True
    with a have "p0 = p" by auto
    with True assms(2,3,4) show ?thesis by (cases "p = c") auto
  next
    case False
    with a have "s r0 = Some n0" by auto
    with a assms(1) obtain pn0 where pn0: "s p0 = Some pn0" "PRef r0 \<in> set (childs pn0)"
      unfolding parent_linked_def by blast
    with assms(2) show ?thesis by (cases "p0 = c") auto
  qed
qed

lemma names_frame:
  assumes "plain_names s" and "s r = Some n" and "p_name n' = p_name n"
  shows "plain_names (s(r \<mapsto> n'))"
  unfolding plain_names_def
proof (intro allI impI, elim conjE)
  fix r0 n0 nm
  assume a: "(s(r \<mapsto> n')) r0 = Some n0" "p_name n0 = Some nm"
  have "\<exists>n1. s r0 = Some n1 \<and> p_name n1 = Some nm"
    using a assms(2,3) by (cases "r0 = r") auto
  with assms(1) show "\<not> shadows nm" unfolding plain_names_def by blast
qed

lemma ok_frame:
  assumes "tree_ok s" and "s r = Some n" and "cls n' = cls n" and "p_name n' = p_name n"
    and "parent n' = parent n \<or> parent n' = None" and "set (childs n) \<subseteq> set (childs n')"
  shows "tree_ok (s(r \<mapsto> n'))"
  using assms linked_frame[of s r n n'] names_frame[of s r n n'] by (simp add: tree_ok_def)

lemma ok_set_parent:
  assumes "tree_ok s" and "s c = Some cn" and "s p = Some pn" and "PRef c \<in> set (childs pn)"
  shows "tree_ok (s(c \<mapsto> cn\<lparr>parent := Some p\<rparr>))"
  using assms linked_set_parent[of s c cn p pn] names_frame[of s c cn "cn\<lparr>parent := Some p\<rparr>"]
  by (simp add: tree_ok_def)

lemma ok_stable:
  "tree_ok s \<Longrightarrow> s r = Some n \<Longrightarrow> tree_ok (s(r \<mapsto> n\<lparr>p_stable := b\<rparr>))"
  by (rule ok_frame) auto

lemma shadows_parent: "shadows ''parent''"
  by (simp add: shadows_def attribute_names_def)

lemma p_insert_ok:
  assumes "tree_ok s"
  shows "tree_ok (snd (p_insert self child idx prep s))"
proof (cases "s self")
  case None
  with assms show ?thesis by (simp add: p_insert_def)
next
  case (Some n)
  show ?thesis
  proof (cases "is_dom (cls n)")
    case False
    with Some assms show ?thesis by (simp add: p_insert_def)
  next
    case dom: True
    define pos where "pos = (if prep then 0 else (case (case idx of None \<Rightarrow> None | Some i \<Rightarrow> (if i \<noteq> 0 \<and> i < 0 then Some 0 else Some i)) of None \<Rightarrow> length (childs n) | Some i \<Rightarrow> nat i))"
    define n1 where "n1 = n\<lparr>childs := take pos (childs n) @ [child] @ drop pos (childs n)\<rparr>"
    define s1 where "s1 = s(self \<mapsto> n1)"
    have sub: "set (childs n) \<subseteq> set (childs n1)"
    proof -
      have "set (childs n) = set (take pos (childs n)) \<union> set (drop pos (childs n))"
        by (metis append_take_drop_id set_append)
      then show ?thesis by (auto simp: n1_def)
    qed
    have ok1: "tree_ok s1"
      unfolding s1_def using assms Some sub by (intro ok_frame[where n = n]) (auto simp: n1_def)
    have s1self: "s1 self = Some n1" by (simp add: s1_def)
    have mem: "child \<in> set (childs n1)" by (simp add: n1_def)
    have eq: "p_insert self child idx prep s =
       (case child of
          PRef c \<Rightarrow>
            (case s1 c of
               None \<Rightarrow> (Inl NotModelled, s1)
             | Some cn \<Rightarrow>
                 (let s2 = s1(c \<mapsto> cn\<lparr>parent := Some self\<rparr>) in
                  case p_name cn of
                    None \<Rightarrow> (Inr (), s2)
                  | Some nm \<Rightarrow>
                      (if nm = [] then (Inr (), s2)
                       else (case s2 self of
                               None \<Rightarrow> (Inl NotModelled, s2)
                             | Some n2 \<Rightarrow>
                                 (if nm = ''parent'' then
                                    (Inr (), s2(self \<mapsto> n2\<lparr>parent := Some c\<rparr>))
                                  else if shadows nm then (Inl NotModelled, s2)
                                  else (Inr (), s2(self \<mapsto> n2\<lparr>named := AList.update nm child (named n2)\<rparr>)))))))
        | _ \<Rightarrow> (Inr (), s1))"
      unfolding p_insert_def s1_def n1_def pos_def Let_def by (simp only: Some option.case dom if_True)
    show ?thesis
    proof (cases child)
      case (PRef c)
      show ?thesis
      proof (cases "s1 c")
        case None
        show ?thesis unfolding eq using PRef None ok1 by simp
      next
        case cn: (Some cn)
        define s2 where "s2 = s1(c \<mapsto> cn\<lparr>parent := Some self\<rparr>)"
        have ok2: "tree_ok s2"
          unfolding s2_def using ok1 cn s1self mem PRef by (intro ok_set_parent) auto
        have "s2 self \<noteq> None" using s1self by (simp add: s2_def)
        then obtain n2 where n2: "s2 self = Some n2" by auto
        have named: "tree_ok (s2(self \<mapsto> n2\<lparr>named := x\<rparr>))" for x
          using ok2 n2 by (rule ok_frame) auto
        have plain: "\<not> shadows nm" if "p_name cn = Some nm" for nm
          using ok1 cn that unfolding tree_ok_def plain_names_def by blast
        show ?thesis
        proof (cases "p_name cn")
          case None
          then show ?thesis unfolding eq using PRef cn ok2 by (simp add: s2_def[symmetric] Let_def)
        next
          case (Some nm)
          from plain[OF Some] shadows_parent have "nm \<noteq> ''parent''" by auto
          with plain[OF Some] Some show ?thesis
            unfolding eq using PRef cn ok2 n2 named by (simp add: s2_def[symmetric] Let_def)
        qed
      qed
    qed (unfold eq, use ok1 in simp_all)
  qed
qed

lemma linked_stable:
  "parent_linked s \<Longrightarrow> s r = Some n \<Longrightarrow> parent_linked (s(r \<mapsto> n\<lparr>p_stable := b\<rparr>))"
  by (rule linked_frame) auto

lemma drop_one_mem:
  assumes "x \<in> set xs" and "j < length xs" and "xs ! j \<noteq> x"
  shows "x \<in> set (take j xs @ drop (Suc j) xs)"
proof -
  from assms(1) obtain i where i: "i < length xs" "xs ! i = x" by (auto simp: in_set_conv_nth)
  with assms(3) have ne: "i \<noteq> j" by auto
  have "xs = take j xs @ xs ! j # drop (Suc j) xs" using assms(2) by (simp add: id_take_nth_drop)
  then have "set xs = set (take j xs @ drop (Suc j) xs) \<union> {xs ! j}"
    by (metis Un_insert_right list.simps(15) set_append sup_bot.right_neutral)
  with assms(1,3) show ?thesis by auto
qed

lemma pop_shape:
  assumes "s r = Some n" and "is_dom (cls n)"
  obtains (out) "pop r idx s = (Inl IndexError, s(r \<mapsto> n\<lparr>p_stable := False\<rparr>))"
  | (hit) k where "k < length (childs n)"
      "pop r idx s =
         (case childs n ! k of
            PRef e \<Rightarrow>
              (case (s(r \<mapsto> n\<lparr>p_stable := False, childs := take k (childs n) @ drop (Suc k) (childs n)\<rparr>)) e of
                 None \<Rightarrow> (Inl NotModelled, s(r \<mapsto> n\<lparr>p_stable := False, childs := take k (childs n) @ drop (Suc k) (childs n)\<rparr>))
               | Some en \<Rightarrow>
                   (if is_dom (cls en) then
                      (Inr (childs n ! k),
                       (s(r \<mapsto> n\<lparr>p_stable := False, childs := take k (childs n) @ drop (Suc k) (childs n)\<rparr>))(e \<mapsto> en\<lparr>parent := None\<rparr>))
                    else (Inr (childs n ! k), s(r \<mapsto> n\<lparr>p_stable := False, childs := take k (childs n) @ drop (Suc k) (childs n)\<rparr>))))
          | _ \<Rightarrow> (Inr (childs n ! k), s(r \<mapsto> n\<lparr>p_stable := False, childs := take k (childs n) @ drop (Suc k) (childs n)\<rparr>)))"
proof -
  let ?len = "int (length (childs n))"
  let ?i = "(case idx of None \<Rightarrow> ?len - 1 | Some k \<Rightarrow> (if k = 0 then ?len - 1 else k))"
  let ?j = "(if ?i < 0 then ?i + ?len else ?i)"
  show thesis
  proof (cases "0 \<le> ?j \<and> ?j < ?len")
    case False
    have "pop r idx s = (Inl IndexError, s(r \<mapsto> n\<lparr>p_stable := False\<rparr>))"
      unfolding pop_def Let_def using assms False by (simp only: option.case if_True if_False)
    then show thesis by (rule out)
  next
    case True
    then have k: "nat ?j < length (childs n)" by linarith
    show thesis
      by (rule hit[OF k]) (unfold pop_def Let_def, use assms True in \<open>simp only: option.case if_True if_False simp_thms\<close>)
  qed
qed

lemma pop_linked:
  assumes "parent_linked s"
  shows "parent_linked (snd (pop r idx s))"
proof (cases "s r")
  case None
  with assms show ?thesis by (simp add: pop_def)
next
  case (Some n)
  show ?thesis
  proof (cases "is_dom (cls n)")
    case False
    with Some assms show ?thesis by (simp add: pop_def)
  next
    case True
    from Some True show ?thesis
    proof (cases rule: pop_shape[where idx = idx])
      case out
      with assms Some show ?thesis by (simp add: linked_stable)
    next
      case (hit k)
      define elem where "elem = childs n ! k"
      define n2 where "n2 = n\<lparr>p_stable := False, childs := take k (childs n) @ drop (Suc k) (childs n)\<rparr>"
      define s2 where "s2 = s(r \<mapsto> n2)"
      note k = hit(1)
      have eq: "pop r idx s =
         (case elem of
            PRef e \<Rightarrow>
              (case s2 e of
                 None \<Rightarrow> (Inl NotModelled, s2)
               | Some en \<Rightarrow>
                   (if is_dom (cls en) then (Inr elem, s2(e \<mapsto> en\<lparr>parent := None\<rparr>))
                    else (Inr elem, s2)))
          | _ \<Rightarrow> (Inr elem, s2))"
        unfolding hit(2) elem_def s2_def n2_def ..
      have keep: "\<exists>pn. s2 p0 = Some pn \<and> PRef r0 \<in> set (childs pn)"
        if "s2 r0 = Some n0" "is_dom (cls n0)" "parent n0 = Some p0" "PRef r0 \<noteq> elem" for r0 n0 p0
      proof -
        have "\<exists>n1. s r0 = Some n1 \<and> is_dom (cls n1) \<and> parent n1 = Some p0"
          using that Some True by (cases "r0 = r") (auto simp: s2_def n2_def)
        then obtain pn where pn: "s p0 = Some pn" "PRef r0 \<in> set (childs pn)"
          using assms unfolding parent_linked_def by blast
        show ?thesis
        proof (cases "p0 = r")
          case True
          with pn Some have "PRef r0 \<in> set (childs n)" by simp
          with k that(4) have "PRef r0 \<in> set (take k (childs n) @ drop (Suc k) (childs n))"
            by (intro drop_one_mem) (auto simp: elem_def)
          with True show ?thesis by (simp add: s2_def n2_def)
        next
          case False
          with pn show ?thesis by (simp add: s2_def)
        qed
      qed
      show ?thesis
      proof (cases "\<exists>e en. elem = PRef e \<and> s2 e = Some en \<and> is_dom (cls en)")
        case True
        then obtain e en where e: "elem = PRef e" "s2 e = Some en" "is_dom (cls en)" by blast
        then have res: "snd (pop r idx s) = s2(e \<mapsto> en\<lparr>parent := None\<rparr>)" by (simp add: eq)
        show ?thesis
          unfolding res parent_linked_def
        proof (intro allI impI, elim conjE)
          fix r0 n0 p0
          assume a: "(s2(e \<mapsto> en\<lparr>parent := None\<rparr>)) r0 = Some n0" "is_dom (cls n0)" "parent n0 = Some p0"
          then have ne: "r0 \<noteq> e" by (auto split: if_splits)
          with a have "s2 r0 = Some n0" by simp
          from keep[OF this a(2,3)] ne e(1) obtain pn where "s2 p0 = Some pn" "PRef r0 \<in> set (childs pn)"
            by auto
          with e(2) show "\<exists>pn. (s2(e \<mapsto> en\<lparr>parent := None\<rparr>)) p0 = Some pn \<and> PRef r0 \<in> set (childs pn)"
            by (cases "p0 = e") auto
        qed
      next
        case False
        then have res: "snd (pop r idx s) = s2"
          by (auto simp: eq split: pyval.splits option.splits)
        show ?thesis
          unfolding res parent_linked_def
        proof (intro allI impI, elim conjE)
          fix r0 n0 p0
          assume a: "s2 r0 = Some n0" "is_dom (cls n0)" "parent n0 = Some p0"
          with False have "PRef r0 \<noteq> elem" by auto
          from keep[OF a this] show "\<exists>pn. s2 p0 = Some pn \<and> PRef r0 \<in> set (childs pn)" .
        qed
      qed
    qed
  qed
qed

lemma pop_names:
  assumes "plain_names s"
  shows "plain_names (snd (pop r idx s))"
proof (cases "s r")
  case None
  with assms show ?thesis by (simp add: pop_def)
next
  case (Some n)
  show ?thesis
  proof (cases "is_dom (cls n)")
    case False
    with Some assms show ?thesis by (simp add: pop_def)
  next
    case True
    from Some True show ?thesis
    proof (cases rule: pop_shape[where idx = idx])
      case out
      with assms Some show ?thesis by (simp add: names_frame)
    next
      case (hit k)
      define s2 where "s2 = s(r \<mapsto> n\<lparr>p_stable := False, childs := take k (childs n) @ drop (Suc k) (childs n)\<rparr>)"
      have p2: "plain_names s2" unfolding s2_def using assms Some by (rule names_frame) simp
      have eq: "pop r idx s =
         (case childs n ! k of
            PRef e \<Rightarrow>
              (case s2 e of
                 None \<Rightarrow> (Inl NotModelled, s2)
               | Some en \<Rightarrow>
                   (if is_dom (cls en) then (Inr (childs n ! k), s2(e \<mapsto> en\<lparr>parent := None\<rparr>))
                    else (Inr (childs n ! k), s2)))
          | _ \<Rightarrow> (Inr (childs n ! k), s2))"
        unfolding hit(2) s2_def ..
      show ?thesis
      proof (cases "\<exists>e en. childs n ! k = PRef e \<and> s2 e = Some en \<and> is_dom (cls en)")
        case True
        then obtain e en where e: "childs n ! k = PRef e" "s2 e = Some en" "is_dom (cls en)" by blast
        then have "snd (pop r idx s) = s2(e \<mapsto> en\<lparr>parent := None\<rparr>)" by (simp add: eq)
        moreover have "plain_names (s2(e \<mapsto> en\<lparr>parent := None\<rparr>))"
          using p2 e(2) by (rule names_frame) simp
        ultimately show ?thesis by simp
      next
        case False
        then have "snd (pop r idx s) = s2"
          by (auto simp: eq split: pyval.splits option.splits)
        with p2 show ?thesis by simp
      qed
    qed
  qed
qed

lemma pop_ok: "tree_ok s \<Longrightarrow> tree_ok (snd (pop r idx s))"
  by (simp add: tree_ok_def pop_linked pop_names)

lemma receive_ok:
  assumes body: "\<And>i tag s. tree_ok s \<Longrightarrow> tree_ok (snd (call3 func inst i tag s))"
    and "tree_ok s"
  shows "tree_ok (snd (receive func inst ys err s))"
  using assms(2)
proof (induction ys arbitrary: s)
  case Nil
  then show ?case by (simp split: option.splits)
next
  case (Cons it rest)
  show ?case
  proof (cases "s inst")
    case None
    with Cons.prems show ?thesis by simp
  next
    case (Some n)
    let ?s1 = "s(inst \<mapsto> n\<lparr>p_stable := False\<rparr>)"
    have l1: "tree_ok ?s1" using Cons.prems Some by (rule ok_stable)
    obtain res s' where r: "call3 func inst (fst it) (snd it) ?s1 = (res, s')" by fastforce
    from body[OF l1, of "fst it" "snd it"] r have l2: "tree_ok s'" by simp
    show ?thesis using Some r l2 Cons.IH[OF l2] by (cases res) simp_all
  qed
qed

lemma content_receiver_ok:
  assumes "\<And>i tag s. tree_ok s \<Longrightarrow> tree_ok (snd (call3 func inst i tag s))"
    and "tree_ok s"
  shows "tree_ok (snd (content_receiver reverse func inst tags kwtags s))"
  using assms(2) receive_ok[OF assms(1)]
  by (simp add: content_receiver_def Let_def split: option.splits)

lemma after_body_ok: "tree_ok s \<Longrightarrow> tree_ok (snd (after_body self i child s))"
  by (simp add: after_body_def p_insert_ok split: option.splits sum.splits)

lemma before_body_ok: "tree_ok s \<Longrightarrow> tree_ok (snd (before_body self i child s))"
  by (simp add: before_body_def p_insert_ok split: option.splits sum.splits)

lemma call_ok: "tree_ok s \<Longrightarrow> tree_ok (snd (call r ts kw s))"
  using content_receiver_ok[of "Ternary call_body" r s False ts kw]
  by (simp add: call_def call_body_def p_insert_ok split: option.splits)

lemma after_ok: "tree_ok s \<Longrightarrow> tree_ok (snd (after r ts kw s))"
  unfolding after_def by (rule content_receiver_ok) (simp_all add: after_body_ok)

lemma before_ok: "tree_ok s \<Longrightarrow> tree_ok (snd (before r ts kw s))"
  unfolding before_def by (rule content_receiver_ok) (simp_all add: before_body_ok)

lemma append_ok: "tree_ok s \<Longrightarrow> tree_ok (snd (append r ts kw s))"
  unfolding append_def by (rule content_receiver_ok) simp_all

lemma prepend_ok: "tree_ok s \<Longrightarrow> tree_ok (snd (prepend r ts kw s))"
  unfolding prepend_def by (rule content_receiver_ok) simp_all

lemma pop_kw_ok: "tree_ok s \<Longrightarrow> tree_ok (snd (pop_kw r kw v s))"
  by (simp add: pop_kw_def pop_ok)

lemma pop_kw_okD: "pop_kw r kw v s = (res, s') \<Longrightarrow> tree_ok s \<Longrightarrow> tree_ok s'"
  using pop_kw_ok[of s r kw v] by simp

lemma pop_okD: "pop r idx s = (res, s') \<Longrightarrow> tree_ok s \<Longrightarrow> tree_ok s'"
  using pop_ok[of s r idx] by simp

lemma before_okD: "before r ts kw s = (res, s') \<Longrightarrow> tree_ok s \<Longrightarrow> tree_ok s'"
  using before_ok[of s r ts kw] by simp

lemma remove_ok: "tree_ok s \<Longrightarrow> tree_ok (snd (remove r s))"
  by (auto simp: remove_def split: option.splits sum.splits prod.splits dest: pop_kw_okD)

lemma move_ok: "tree_ok s \<Longrightarrow> tree_ok (snd (move r f i p s))"
  by (auto simp: move_def split: option.splits sum.splits prod.splits dest: pop_kw_okD)

lemma wrap_ok:
  assumes "tree_ok s"
  shows "tree_ok (snd (wrap r other s))"
proof -
  have step: "tree_ok (snd (case x of (Inl e, s') \<Rightarrow> (Inl e, s') | (Inr u, s') \<Rightarrow> append other [PRef r] [] s'))"
    if "tree_ok (snd x)" for x :: "unit outcome"
    using that append_ok by (auto split: prod.splits sum.splits)
  have inner: "tree_ok (snd (case before r [PRef other] [] s of
        (Inl e, s1) \<Rightarrow> (Inl e, s1)
      | (Inr u, s1) \<Rightarrow>
          (case own_index r s1 of
             Inl e \<Rightarrow> (Inl e, s1)
           | Inr k \<Rightarrow>
               (case pop p (map_option int k) s1 of
                  (Inl e, s2) \<Rightarrow> (Inl e, s2)
                | (Inr v, s2) \<Rightarrow> (Inr (), s2)))))" for p
    using assms
    by (auto split: sum.splits prod.splits dest: before_okD pop_okD)
  show ?thesis
    unfolding wrap_def using assms
    by (auto split: option.splits intro!: step inner append_ok)
qed

lemma apply_mutation_ok: "tree_ok s \<Longrightarrow> tree_ok (apply_mutation m s)"
  by (cases m)
    (simp_all add: p_insert_ok call_ok append_ok prepend_ok before_ok
      after_ok move_ok wrap_ok remove_ok pop_ok)

lemma run_ok: "tree_ok s \<Longrightarrow> tree_ok (run ms s)"
  unfolding run_def by (induction ms arbitrary: s) (simp_all add: apply_mutation_ok)

lemma p_insert_no_detach:
  assumes "map_option (\<lambda>n. is_dom (cls n)) (t self) = Some True" and "t c \<noteq> None" and "c \<noteq> self"
    and "plain_names t"
  shows "fst (p_insert self (PRef c) idx prep t) = Inr ()
     \<and> map_option parent (snd (p_insert self (PRef c) idx prep t) c) = Some (Some self)
     \<and> map_option (\<lambda>n. PRef c \<in> set (childs n)) (snd (p_insert self (PRef c) idx prep t) self) = Some True
     \<and> map_option (\<lambda>n. length (childs n)) (snd (p_insert self (PRef c) idx prep t) self)
         = map_option (\<lambda>n. Suc (length (childs n))) (t self)
     \<and> (\<forall>q. q \<noteq> self \<and> q \<noteq> c \<longrightarrow> snd (p_insert self (PRef c) idx prep t) q = t q)"
proof -
  from assms(1) obtain n where n: "t self = Some n" "is_dom (cls n)" by (cases "t self") auto
  from assms(2) obtain cn where cn: "t c = Some cn" by auto
  have plain: "\<not> shadows nm" if "p_name cn = Some nm" for nm
    using assms(4) cn that unfolding plain_names_def by blast
  then have np: "nm \<noteq> ''parent''" if "p_name cn = Some nm" for nm
    using that shadows_parent by auto
  show ?thesis
    using n cn assms(3) plain np
    by (auto simp: p_insert_def Let_def split: option.splits)
qed

lemma fresh_ok:
  "(\<And>r n. s r = Some n \<Longrightarrow> parent n = None \<and> p_name n = None) \<Longrightarrow> tree_ok s"
  unfolding tree_ok_def parent_linked_def plain_names_def by fastforce

lemma fresh4_ok: "tree_ok fresh4"
proof (rule fresh_ok)
  fix r n assume "fresh4 r = Some n"
  then show "parent n = None \<and> p_name n = None"
    by (auto simp: fresh4_def P_def Div_def Tag_init_def update_def blank_def split: if_splits)
qed

lemma named_parent_overwrites:
  "map_option parent
     (snd (call 0 [PRef 1] [] (snd (Content_init (Some ''parent'') PNone None 1 (snd (Div [] 0 Map.empty))))) 0)
   = Some (Some 1)"
  by code_simp

text \<open>
  Claim C2, as amended. Take a state in which no object's symbolic name shadows an
  attribute of the element classes and in which every \<^verbatim>\<open>DOMElement\<close> whose parent
  reference is set is in the child list of the parent it refers to (freshly constructed
  nodes, for instance). In every state that a sequence of \<^verbatim>\<open>_insert\<close>, constructor
  call, \<^verbatim>\<open>append\<close>, \<^verbatim>\<open>prepend\<close>, \<^verbatim>\<open>before\<close>, \<^verbatim>\<open>after\<close>, \<^verbatim>\<open>move\<close>, \<^verbatim>\<open>wrap\<close>,
  \<^verbatim>\<open>remove\<close> and \<^verbatim>\<open>pop\<close> reaches from it, both still hold; and there, inserting a
  node that exists into a \<^verbatim>\<open>DOMElement\<close> other than itself succeeds, sets the node's
  parent reference to that element, adds the node to that element's child list (one
  more child), and changes no third object: the node is not taken out of its old
  parent's child list. (A child named \<^verbatim>\<open>parent\<close> would replace the receiver's parent
  reference, see \<open>named_parent_overwrites\<close>; hence the condition on the names.)
\<close>

theorem insertion_links_without_detaching:
  assumes "plain_names s" and "parent_linked s"
  shows "plain_names (run ms s) \<and> parent_linked (run ms s)
   \<and> (map_option (\<lambda>n. is_dom (cls n)) (run ms s self) = Some True \<and> run ms s c \<noteq> None \<and> c \<noteq> self \<longrightarrow>
        fst (p_insert self (PRef c) idx prep (run ms s)) = Inr ()
      \<and> map_option parent (snd (p_insert self (PRef c) idx prep (run ms s)) c) = Some (Some self)
      \<and> map_option (\<lambda>n. PRef c \<in> set (childs n)) (snd (p_insert self (PRef c) idx prep (run ms s)) self) = Some True
      \<and> map_option (\<lambda>n. length (childs n)) (snd (p_insert self (PRef c) idx prep (run ms s)) self)
          = map_option (\<lambda>n. Suc (length (childs n))) (run ms s self)
      \<and> (\<forall>q. q \<noteq> self \<and> q \<noteq> c \<longrightarrow> snd (p_insert self (PRef c) idx prep (run ms s)) q = run ms s q))"
proof -
  from assms have "tree_ok (run ms s)" by (intro run_ok) (simp add: tree_ok_def)
  then have ok: "plain_names (run ms s)" "parent_linked (run ms s)" by (simp_all add: tree_ok_def)
  with p_insert_no_detach[of "run ms s" self c idx prep] show ?thesis by blast
qed

theorem insertion_links_without_detaching_witness:
  "parent_linked (run [Call 0 [PRef 2, PRef 3] [], Pop 0 None] fresh4)
   \<and> map_option childs (run [Call 0 [PRef 2, PRef 3] [], Pop 0 None] fresh4 0) = Some [PRef 2]
   \<and> map_option parent (run [Call 0 [PRef 2, PRef 3] [], Pop 0 None] fresh4 2) = Some (Some 0)
   \<and> map_option parent (snd (p_insert 1 (PRef 2) None False (run [Call 0 [PRef 2, PRef 3] [], Pop 0 None] fresh4)) 2)
        = Some (Some 1)
   \<and> map_option (\<lambda>n. PRef 2 \<in> set (childs n))
        (snd (p_insert 1 (PRef 2) None False (run [Call 0 [PRef 2, PRef 3] [], Pop 0 None] fresh4)) 1) = Some True
   \<and> snd (p_insert 1 (PRef 2) None False (run [Call 0 [PRef 2, PRef 3] [], Pop 0 None] fresh4)) 0
        = run [Call 0 [PRef 2, PRef 3] [], Pop 0 None] fresh4 0"
proof -
  let ?t = "run [Call 0 [PRef 2, PRef 3] [], Pop 0 None] fresh4"
  have f: "plain_names fresh4" "parent_linked fresh4"
    using fresh4_ok by (simp_all add: tree_ok_def)
  have c: "map_option childs (?t 0) = Some [PRef 2]" "map_option parent (?t 2) = Some (Some 0)"
    "map_option (\<lambda>n. is_dom (cls n)) (?t 1) = Some True" "map_option cls (?t 2) = Some Tag"
    by code_simp+
  from c(4) have e: "?t 2 \<noteq> None" by auto
  have d: "(2::nat) \<noteq> 1" "(0::nat) \<noteq> 1 \<and> (0::nat) \<noteq> 2" by simp_all
  from insertion_links_without_detaching[OF f, of "[Call 0 [PRef 2, PRef 3] [], Pop 0 None]" 1 2 None False]
    c e d
  show ?thesis by blast
qed

text \<open>
  The claim as stated fails: after \<^verbatim>\<open>a(c)\<close> and \<^verbatim>\<open>b(c)\<close> the node \<^verbatim>\<open>c\<close> is in
  the child lists of both \<^verbatim>\<open>a\<close> and \<^verbatim>\<open>b\<close>.
\<close>

theorem node_in_two_child_lists:
  "map_option childs (snd (call 1 [PRef 2] [] (snd (call 0 [PRef 2] [] fresh4))) 0) = Some [PRef 2]
   \<and> map_option childs (snd (call 1 [PRef 2] [] (snd (call 0 [PRef 2] [] fresh4))) 1) = Some [PRef 2]
   \<and> map_option parent (snd (call 1 [PRef 2] [] (snd (call 0 [PRef 2] [] fresh4))) 2) = Some (Some 1)"
  by code_simp

section \<open>Where the code departs from its description\<close>

text \<open>
  Claim C1. After \<^verbatim>\<open>Div()(P())\<close> has been rendered, an attribute written on the
  child does not reach the parent's cache: \<^verbatim>\<open>render\<close> of the parent returns the
  old string, while the render recomputed from a store without cached renders and
  stability flags shows the attribute. (\<^verbatim>\<open>Tag.render\<close> tests the element's own
  \<^verbatim>\<open>_stable\<close>, which only the element's own mutators clear.)
\<close>

theorem render_returns_stale_cache:
  \<open>fst (render gs 3 0 [] [] div_p) = Inr ''<div><p></p></div>''
   \<and> fst (render gs 3 0 [] [] (snd (attr 1 None [(''id'', PStr ''x'')] (snd (render gs 3 0 [] [] div_p)))))
     = Inr ''<div><p></p></div>''
   \<and> fst (render gs 3 0 [] [] (clear_cache (snd (attr 1 None [(''id'', PStr ''x'')] (snd (render gs 3 0 [] [] div_p))))))
     = Inr ''<div><p id="x"></p></div>''\<close>
  by code_simp

text \<open>
  Claim C3. In \<^verbatim>\<open>Div()(P(), P())\<close>, \<^verbatim>\<open>remove\<close> on the first child returns without
  removing it (its index 0 is false), and \<^verbatim>\<open>remove\<close> on the second child raises
  TypeError (\<^verbatim>\<open>pop\<close> has no parameter \<^verbatim>\<open>i\<close>); both children stay in the list with
  their parent reference.
\<close>

theorem remove_leaves_node_attached:
  "map_option childs (div_p_p 0) = Some [PRef 1, PRef 2]
   \<and> fst (remove 1 div_p_p) = Inr 1
   \<and> map_option childs (snd (remove 1 div_p_p) 0) = Some [PRef 1, PRef 2]
   \<and> map_option parent (snd (remove 1 div_p_p) 1) = Some (Some 0)
   \<and> fst (remove 2 div_p_p) = Inl TypeError
   \<and> map_option childs (snd (remove 2 div_p_p) 0) = Some [PRef 1, PRef 2]
   \<and> map_option parent (snd (remove 2 div_p_p) 2) = Some (Some 0)"
  by code_simp

text \<open>
  Claim C4. \<^verbatim>\<open>empty\<close> on \<^verbatim>\<open>Div()(P(), P())\<close> returns the element with both
  children still in the list and their parent references still set.
\<close>

theorem empty_removes_nothing:
  "fst (empty 0 div_p_p) = Inr 0
   \<and> map_option childs (snd (empty 0 div_p_p) 0) = Some [PRef 1, PRef 2]
   \<and> map_option parent (snd (empty 0 div_p_p) 1) = Some (Some 0)
   \<and> map_option parent (snd (empty 0 div_p_p) 2) = Some (Some 0)"
  by code_simp

text \<open>
  Claim C5. In \<^verbatim>\<open>Div()('before', Content(name='x'), 'after')\<close> nothing binds
  \<^verbatim>\<open>x\<close>. Rendering the element raises RuntimeError under PEP 479, and without it
  returns a string that has lost the sibling after the placeholder; rendering the
  placeholder itself raises StopIteration.
\<close>

theorem unresolved_placeholder_breaks_render:
  "map_option childs (div_placeholder 0) = Some [PStr ''before'', PRef 1, PStr ''after'']
   \<and> fst (render True 3 0 [] [] div_placeholder) = Inl RuntimeError
   \<and> fst (render False 3 0 [] [] div_placeholder) = Inr ''<div>before</div>''
   \<and> fst (render gs 3 1 [] [] div_placeholder) = Inl StopIteration"
  by code_simp

text \<open>
  Claim C6. The style sheet with the attribute mapping
  \<^verbatim>\<open>{'html body': {'color': 'red'}}\<close> renders in compact mode without the closing
  brace.
\<close>

theorem compact_sheet_lacks_closing_brace:
  \<open>map_option attrs (sheet 0) = Some [(''html body'', PDict [(''color'', PStr ''red'')])]
   \<and> fst (render gs 3 0 [] [] sheet) = Inr ''<style>html body { color: red; </style>''
   \<and> fst (render gs 3 0 [] [] sheet) \<noteq> Inr ''<style>html body { color: red; }</style>''\<close>
  by code_simp

text \<open>
  Claim C7. A generator of two children passed to the constructor call raises
  TypeError and adds nothing, where the two calls with one child each add both; a list
  and a tuple are spliced. \<^verbatim>\<open>append\<close> raises TypeError for a list and for a single
  child.
\<close>

theorem generator_and_append_raise:
  "fst (call 0 [PGen [PRef 1, PRef 2]] [] fresh4) = Inl TypeError
   \<and> map_option childs (snd (call 0 [PGen [PRef 1, PRef 2]] [] fresh4) 0) = Some []
   \<and> map_option childs (snd (call 0 [PRef 2] [] (snd (call 0 [PRef 1] [] fresh4))) 0) = Some [PRef 1, PRef 2]
   \<and> map_option childs (snd (call 0 [PList [PRef 1, PRef 2]] [] fresh4) 0) = Some [PRef 1, PRef 2]
   \<and> map_option childs (snd (call 0 [PTuple [PRef 1, PRef 2]] [] fresh4) 0) = Some [PRef 1, PRef 2]
   \<and> fst (append 0 [PList [PRef 1, PRef 2]] [] fresh4) = Inl TypeError
   \<and> map_option childs (snd (append 0 [PList [PRef 1, PRef 2]] [] fresh4) 0) = Some []
   \<and> fst (append 0 [PRef 1] [] fresh4) = Inl TypeError
   \<and> map_option childs (snd (append 0 [PRef 1] [] fresh4) 0) = Some []"
  by code_simp

text \<open>
  Claim C8. \<^verbatim>\<open>before\<close> raises ValueError, with or without arguments, and inserts
  nothing; \<^verbatim>\<open>after\<close> inserts its arguments behind the node in their order.
\<close>

theorem before_raises_value_error:
  "fst (before 1 [PRef 2, PRef 3] [] div_p) = Inl ValueError
   \<and> map_option childs (snd (before 1 [PRef 2, PRef 3] [] div_p) 0) = Some [PRef 1]
   \<and> fst (before 1 [] [] div_p) = Inl ValueError
   \<and> fst (after 1 [PRef 2, PRef 3] [] div_p) = Inr 1
   \<and> map_option childs (snd (after 1 [PRef 2, PRef 3] [] div_p) 0) = Some [PRef 1, PRef 2, PRef 3]"
  by code_simp

end
